(* ===== verification/Prelude.thy ===== *)
theory Prelude
  imports Main "HOL-Library.Word"
begin

text \<open>
  What the components share: the C integer types, the faults that stand for undefined
  behaviour and for a call that never returns, the result type that carries them, two
  judgements about results (total and partial), and reachability of a labelled step
  relation with the locale that turns a one-step invariant into an invariant of every
  reachable state.
\<close>

unbundle bit_operations_syntax

type_synonym u8 = "8 word"
type_synonym u16 = "16 word"
type_synonym u32 = "32 word"

text \<open>A C pointer to an object of the environment: \<open>None\<close> is NULL.\<close>

type_synonym cptr = "nat option"

lemma unat_inc16: "unat (c :: u16) < 65535 \<Longrightarrow> unat (c + 1) = Suc (unat c)"
  by (simp add: unat_word_ariths)

lemma unat_dec16: "0 < unat (c :: u16) \<Longrightarrow> unat (c - 1) = unat c - 1"
  by (rule unat_minus_one) auto

subsection \<open>Faults and results\<close>

datatype fault =
    NullDeref       \<comment> \<open>a NULL pointer is dereferenced\<close>
  | DanglingRead    \<comment> \<open>an object is read after its memory was given back\<close>
  | OutOfBounds     \<comment> \<open>an array or a buffer is accessed outside its bounds\<close>
  | IntOverflow     \<comment> \<open>a signed integer overflows\<close>
  | NoReturn        \<comment> \<open>a loop that never ends\<close>

type_synonym 'a result = "fault + 'a"

fun rbind :: "'a result \<Rightarrow> ('a \<Rightarrow> 'b result) \<Rightarrow> 'b result" where
  "rbind (Inl f) k = Inl f"
| "rbind (Inr x) k = k x"

lemma rbind_cong [fundef_cong]:
  "m = m' \<Longrightarrow> (\<And>x. m' = Inr x \<Longrightarrow> k x = k' x) \<Longrightarrow> rbind m k = rbind m' k'"
  by (cases m') auto

lemma rbind_Inr_iff [simp]: "rbind m k = Inr y \<longleftrightarrow> (\<exists>x. m = Inr x \<and> k x = Inr y)"
  by (cases m) auto

lemma rbind_Inl_iff: "rbind m k = Inl f \<longleftrightarrow> m = Inl f \<or> (\<exists>x. m = Inr x \<and> k x = Inl f)"
  by (cases m) auto

lemma rbind_assoc: "rbind (rbind m k) h = rbind m (\<lambda>x. rbind (k x) h)"
  by (cases m) auto

text \<open>
  \<open>returns m P\<close>: the call comes back without a fault and its value satisfies \<open>P\<close>
  (total). \<open>ensures m P\<close>: if it comes back, its value satisfies \<open>P\<close> (partial).
\<close>

definition returns :: "'a result \<Rightarrow> ('a \<Rightarrow> bool) \<Rightarrow> bool" where
  "returns m P = (case m of Inl f \<Rightarrow> False | Inr x \<Rightarrow> P x)"

definition ensures :: "'a result \<Rightarrow> ('a \<Rightarrow> bool) \<Rightarrow> bool" where
  "ensures m P = (case m of Inl f \<Rightarrow> True | Inr x \<Rightarrow> P x)"

lemma returns_simps [simp]: "returns (Inl f) P = False" "returns (Inr x) P = P x"
  by (simp_all add: returns_def)

lemma ensures_simps [simp]: "ensures (Inl f) P = True" "ensures (Inr x) P = P x"
  by (simp_all add: ensures_def)

lemma returns_iff: "returns m P \<longleftrightarrow> (\<exists>x. m = Inr x \<and> P x)"
  by (cases m) auto

lemma returns_rbind [simp]: "returns (rbind m k) P = returns m (\<lambda>x. returns (k x) P)"
  by (cases m) auto

lemma ensures_rbind [simp]: "ensures (rbind m k) P = ensures m (\<lambda>x. ensures (k x) P)"
  by (cases m) auto

lemma returns_mono: "returns m P \<Longrightarrow> (\<And>x. P x \<Longrightarrow> Q x) \<Longrightarrow> returns m Q"
  by (cases m) auto

lemma ensures_mono: "ensures m P \<Longrightarrow> (\<And>x. P x \<Longrightarrow> Q x) \<Longrightarrow> ensures m Q"
  by (cases m) auto

lemma ensures_True [simp]: "ensures m (\<lambda>_. True)"
  by (cases m) auto

lemma returns_imp_ensures: "returns m P \<Longrightarrow> ensures m P"
  by (cases m) auto

lemma ensuresD: "ensures m P \<Longrightarrow> m = Inr x \<Longrightarrow> P x"
  by simp

lemma ensuresI: "(\<And>x. m = Inr x \<Longrightarrow> P x) \<Longrightarrow> ensures m P"
  by (cases m) auto

lemma returns_conj: "returns m P \<Longrightarrow> ensures m Q \<Longrightarrow> returns m (\<lambda>x. P x \<and> Q x)"
  by (cases m) auto

text \<open>\<open>faults_in m F\<close>: if the call does not come back, its fault is one of \<open>F\<close>.\<close>

definition faults_in :: "'a result \<Rightarrow> fault set \<Rightarrow> bool" where
  "faults_in m F = (case m of Inl f \<Rightarrow> f \<in> F | Inr x \<Rightarrow> True)"

lemma faults_in_simps [simp]: "faults_in (Inl f) F = (f \<in> F)" "faults_in (Inr x) F = True"
  by (simp_all add: faults_in_def)

lemma faults_in_rbind [simp]:
  "faults_in (rbind m k) F \<longleftrightarrow> faults_in m F \<and> ensures m (\<lambda>x. faults_in (k x) F)"
  by (cases m) auto

lemma faults_inD: "faults_in m F \<Longrightarrow> m = Inl f \<Longrightarrow> f \<in> F"
  by simp

lemma faults_inI: "(\<And>f. m = Inl f \<Longrightarrow> f \<in> F) \<Longrightarrow> faults_in m F"
  by (cases m) auto

subsection \<open>Reachable states of a labelled step relation\<close>

inductive reach :: "('s \<Rightarrow> 'l \<Rightarrow> 's \<Rightarrow> bool) \<Rightarrow> 's \<Rightarrow> 's \<Rightarrow> bool"
  for step :: "'s \<Rightarrow> 'l \<Rightarrow> 's \<Rightarrow> bool" and s0 :: 's where
  reach_init: "reach step s0 s0"
| reach_step: "reach step s0 s \<Longrightarrow> step s l s' \<Longrightarrow> reach step s0 s'"

lemma reach_trans: "reach step b c \<Longrightarrow> reach step a b \<Longrightarrow> reach step a c"
  by (induction rule: reach.induct) (auto intro: reach_step)

lemma reach_one: "step s l s' \<Longrightarrow> reach step s s'"
  by (rule reach_step [OF reach_init])

locale step_invariant =
  fixes step :: "'s \<Rightarrow> 'l \<Rightarrow> 's \<Rightarrow> bool" and init :: 's and inv :: "'s \<Rightarrow> bool"
  assumes inv_init: "inv init"
    and inv_step: "inv s \<Longrightarrow> step s l s' \<Longrightarrow> inv s'"
begin

lemma reach_from_inv: "reach step s s' \<Longrightarrow> inv s \<Longrightarrow> inv s'"
  by (induction rule: reach.induct) (auto intro: inv_step)

lemma reach_inv: "reach step init s \<Longrightarrow> inv s"
  using inv_init by (rule reach_from_inv [rotated])

end

text \<open>
  A quantity that no step lowers (a loss that is never made good) under an invariant.
\<close>

locale monotone_measure = step_invariant +
  fixes loss :: "'s \<Rightarrow> nat"
  assumes loss_step: "inv s \<Longrightarrow> step s l s' \<Longrightarrow> loss s \<le> loss s'"
begin

lemma reach_loss: "reach step s s' \<Longrightarrow> inv s \<Longrightarrow> loss s \<le> loss s'"
proof (induction rule: reach.induct)
  case reach_init
  show ?case by simp
next
  case (reach_step t l t')
  then have "inv t" and "loss s \<le> loss t" by (auto intro: reach_from_inv)
  moreover from \<open>inv t\<close> reach_step.hyps(2) have "loss t \<le> loss t'" by (rule loss_step)
  ultimately show ?case by simp
qed

end

subsection \<open>Refinement mappings between step relations\<close>

text \<open>
  A function that maps the states of a concrete relation to those of an abstract one, under an
  invariant of the concrete relation: concrete steps are abstract steps, so that reachable
  states are mapped to reachable states, and what is invariant above holds below.
\<close>

locale refinement_map = step_invariant +
  fixes astep :: "'a \<Rightarrow> 'l \<Rightarrow> 'a \<Rightarrow> bool" and ainit :: 'a and view :: "'s \<Rightarrow> 'a"
  assumes view_init: "view init = ainit"
    and view_step: "inv s \<Longrightarrow> step s l s' \<Longrightarrow> astep (view s) l (view s')"
begin

lemma view_reach_from: "reach step s s' \<Longrightarrow> inv s \<Longrightarrow> reach astep (view s) (view s')"
proof (induction rule: reach.induct)
  case reach_init
  show ?case by (rule reach.reach_init)
next
  case (reach_step t l t')
  then have "inv t" by (auto intro: reach_from_inv)
  then have "astep (view t) l (view t')" using reach_step.hyps(2) by (rule view_step)
  with reach_step show ?case by (auto intro: reach.reach_step)
qed

lemma view_reach: "reach step init s \<Longrightarrow> reach astep ainit (view s)"
  using view_reach_from [OF _ inv_init] by (simp add: view_init)

end

subsection \<open>Enumerations\<close>

text \<open>
  A C enumeration: its constants and their values. Decoding a value finds the constant that has
  it, if there is one.
\<close>

definition enum_decode :: "('e \<Rightarrow> int) \<Rightarrow> 'e list \<Rightarrow> int \<Rightarrow> 'e option" where
  "enum_decode val elems v = find (\<lambda>e. val e = v) elems"

text \<open>Without explicit values, a constant's value is its position.\<close>

definition enum_pos :: "'e list \<Rightarrow> 'e \<Rightarrow> int" where
  "enum_pos elems e = int (length (takeWhile (\<lambda>x. x \<noteq> e) elems))"

text \<open>Encoding and decoding are inverse to each other, in a byte.\<close>

definition codes_roundtrip :: "('e \<Rightarrow> int) \<Rightarrow> 'e list \<Rightarrow> bool" where
  "codes_roundtrip val elems \<longleftrightarrow> (\<forall>e. enum_decode val elems (val e) = Some e \<and> 0 \<le> val e \<and> val e < 256) \<and>
     (\<forall>v e. enum_decode val elems v = Some e \<longrightarrow> val e = v)"

locale c_enum =
  fixes val :: "'e \<Rightarrow> int" and elems :: "'e list"
  assumes elems_all: "e \<in> set elems"
    and val_distinct: "distinct (map val elems)"
begin

lemma val_inj: "val a = val b \<Longrightarrow> a = b"
  using val_distinct elems_all by (auto simp: distinct_map dest: inj_onD)

lemma decode_iff: "enum_decode val elems v = Some e \<longleftrightarrow> val e = v"
proof
  assume "enum_decode val elems v = Some e"
  then show "val e = v" by (auto simp: enum_decode_def find_Some_iff)
next
  assume v: "val e = v"
  show "enum_decode val elems v = Some e"
  proof (cases "enum_decode val elems v")
    case None
    with v elems_all [of e] show ?thesis by (simp add: enum_decode_def find_None_iff)
  next
    case (Some d)
    then have "val d = v" by (auto simp: enum_decode_def find_Some_iff)
    with v Some show ?thesis by (simp add: val_inj [of d e])
  qed
qed

lemma decode_val: "enum_decode val elems (val e) = Some e"
  by (simp add: decode_iff)

lemma roundtrip: "\<forall>v \<in> set (map val elems). 0 \<le> v \<and> v < 256 \<Longrightarrow> codes_roundtrip val elems"
  unfolding codes_roundtrip_def using elems_all by (auto simp: decode_iff)

lemma decode_None_iff: "enum_decode val elems v = None \<longleftrightarrow> v \<notin> range val"
  using elems_all by (auto simp: enum_decode_def find_None_iff)

end

lemma enum_pos_nth: "distinct elems \<Longrightarrow> i < length elems \<Longrightarrow> enum_pos elems (elems ! i) = int i"
  unfolding enum_pos_def by (induction elems arbitrary: i) (auto simp: nth_Cons split: nat.splits)

lemma map_enum_pos: "distinct elems \<Longrightarrow> map (enum_pos elems) elems = map int [0..<length elems]"
  by (rule nth_equalityI) (simp_all add: enum_pos_nth)

lemma enum_pos_range:
  "distinct elems \<Longrightarrow> length elems \<le> 256 \<Longrightarrow> \<forall>v \<in> set (map (enum_pos elems) elems). 0 \<le> v \<and> v < 256"
  by (simp only: map_enum_pos) auto

lemma enum_pos_c_enum:
  assumes "distinct elems" and "\<And>e. e \<in> set elems"
  shows "c_enum (enum_pos elems) elems"
  by unfold_locales (use assms in \<open>auto simp: map_enum_pos distinct_map\<close>)

end
