(* ===== verification/Mpool.thy ===== *)
theory Mpool
  imports Prelude
begin

text \<open>
  The static pool of receive-queue nodes (\<open>src/tcpip_mpool.h\<close>, \<open>src/tcpip_mpool.c\<close>):
  its node type, its three operations, the set of slots that are in use, and the allocator
  contract (locale \<open>slot_allocator\<close>) that the receive queue relies on.
\<close>

subsection \<open>Data\<close>

definition TCPIP_MEM_POOL_SIZE :: nat where
  "TCPIP_MEM_POOL_SIZE = 5"

datatype tcpip_mpool_state_t =
  MPOOL_FREE | MPOOL_ACQUIRED | MPOOL_DATA_FILLED | MAX_MPOOL_STATE

text \<open>
  A \<open>tcpip_mpool_t*\<close>: NULL, or the address \<open>TcpIp_MemPool + k\<close> for an integer \<open>k\<close>
  (in a flat address space; \<open>k\<close> outside the array is a pointer outside the pool, and the
  comparison of pointers is the comparison of the offsets). Addresses that do not fall on a
  node boundary are not represented.
\<close>

datatype mpool_ptr = NullNode | Node int

record tcpip_mpool =
  mp_next :: mpool_ptr
  mp_pbuf :: cptr
  mp_state :: tcpip_mpool_state_t

type_synonym mem_pool = "tcpip_mpool list"

text \<open>The array has static storage: every member starts as zero.\<close>

definition TcpIp_MemPool_init :: mem_pool where
  "TcpIp_MemPool_init =
     replicate TCPIP_MEM_POOL_SIZE
       \<lparr>mp_next = NullNode, mp_pbuf = None, mp_state = MPOOL_FREE\<rparr>"

text \<open>Reading and writing through a node pointer.\<close>

definition load_node :: "mem_pool \<Rightarrow> mpool_ptr \<Rightarrow> tcpip_mpool result" where
  "load_node pool p =
     (case p of
        NullNode \<Rightarrow> Inl NullDeref
      | Node k \<Rightarrow> if 0 \<le> k \<and> k < int (length pool) then Inr (pool ! nat k) else Inl OutOfBounds)"

definition store_node :: "mem_pool \<Rightarrow> mpool_ptr \<Rightarrow> tcpip_mpool \<Rightarrow> mem_pool result" where
  "store_node pool p n =
     (case p of
        NullNode \<Rightarrow> Inl NullDeref
      | Node k \<Rightarrow> if 0 \<le> k \<and> k < int (length pool) then Inr (pool[nat k := n]) else Inl OutOfBounds)"

lemma load_store_simps [simp]:
  "load_node pool NullNode = Inl NullDeref"
  "i < length pool \<Longrightarrow> load_node pool (Node (int i)) = Inr (pool ! i)"
  "store_node pool NullNode n = Inl NullDeref"
  "i < length pool \<Longrightarrow> store_node pool (Node (int i)) n = Inr (pool[i := n])"
  by (simp_all add: load_node_def store_node_def)

subsection \<open>Operations\<close>

text \<open>\<open>get_new_tcpip_mpool\<close>: the loop from index \<open>i\<close>, then the call.\<close>

function get_new_loop :: "mem_pool \<Rightarrow> nat \<Rightarrow> mpool_ptr \<times> mem_pool" where
  "get_new_loop pool i =
     (if i < TCPIP_MEM_POOL_SIZE then
        if mp_state (pool ! i) = MPOOL_FREE
        then (Node (int i), pool[i := (pool ! i)\<lparr>mp_state := MPOOL_ACQUIRED\<rparr>])
        else get_new_loop pool (i + 1)
      else (NullNode, pool))"
  by pat_completeness auto
termination
  by (relation "measure (\<lambda>(pool, i). TCPIP_MEM_POOL_SIZE - i)") auto

declare get_new_loop.simps [simp del]

definition get_new_tcpip_mpool :: "mem_pool \<Rightarrow> mpool_ptr \<times> mem_pool" where
  "get_new_tcpip_mpool pool = get_new_loop pool 0"

function w_data_loop :: "mem_pool \<Rightarrow> nat \<Rightarrow> mpool_ptr" where
  "w_data_loop pool i =
     (if i < TCPIP_MEM_POOL_SIZE then
        if mp_state (pool ! i) = MPOOL_DATA_FILLED then Node (int i)
        else w_data_loop pool (i + 1)
      else NullNode)"
  by pat_completeness auto
termination
  by (relation "measure (\<lambda>(pool, i). TCPIP_MEM_POOL_SIZE - i)") auto

declare w_data_loop.simps [simp del]

definition get_tcpip_mpool_w_data :: "mem_pool \<Rightarrow> mpool_ptr" where
  "get_tcpip_mpool_w_data pool = w_data_loop pool 0"

text \<open>
  \<open>free_tcpip_mpool\<close>: the guard is the source's, whose upper comparison admits the
  one-past-the-end address; the store through \<open>p_mpool\<close> then leaves the array.
\<close>

definition in_mpool_range :: "mpool_ptr \<Rightarrow> bool" where
  "in_mpool_range p =
     (case p of NullNode \<Rightarrow> False | Node k \<Rightarrow> 0 \<le> k \<and> k \<le> int TCPIP_MEM_POOL_SIZE)"

definition free_tcpip_mpool :: "mpool_ptr \<Rightarrow> mem_pool \<Rightarrow> (bool \<times> mem_pool) result" where
  "free_tcpip_mpool p pool =
     (if in_mpool_range p then
        rbind (load_node pool p) (\<lambda>n.
        rbind (store_node pool p (n\<lparr>mp_state := MPOOL_FREE\<rparr>)) (\<lambda>pool'.
        Inr (True, pool')))
      else Inr (False, pool))"

subsection \<open>What the searches compute\<close>

text \<open>
  The index loops against a reference: the first index, in array order, whose slot is in
  the state that is looked for.
\<close>

definition first_in_state :: "tcpip_mpool_state_t \<Rightarrow> mem_pool \<Rightarrow> nat option" where
  "first_in_state st pool = find (\<lambda>i. mp_state (pool ! i) = st) [0..<TCPIP_MEM_POOL_SIZE]"

lemma get_new_loop_find:
  "get_new_loop pool i =
     (case find (\<lambda>j. mp_state (pool ! j) = MPOOL_FREE) [i..<TCPIP_MEM_POOL_SIZE] of
        None \<Rightarrow> (NullNode, pool)
      | Some j \<Rightarrow> (Node (int j), pool[j := (pool ! j)\<lparr>mp_state := MPOOL_ACQUIRED\<rparr>]))"
proof (induction pool i rule: get_new_loop.induct)
  case (1 pool i)
  then show ?case
    by (cases "i < TCPIP_MEM_POOL_SIZE")
       (simp_all add: get_new_loop.simps [of pool i] upt_conv_Cons)
qed

lemma w_data_loop_find:
  "w_data_loop pool i =
     (case find (\<lambda>j. mp_state (pool ! j) = MPOOL_DATA_FILLED) [i..<TCPIP_MEM_POOL_SIZE] of
        None \<Rightarrow> NullNode | Some j \<Rightarrow> Node (int j))"
proof (induction pool i rule: w_data_loop.induct)
  case (1 pool i)
  then show ?case
    by (cases "i < TCPIP_MEM_POOL_SIZE")
       (simp_all add: w_data_loop.simps [of pool i] upt_conv_Cons)
qed

lemma first_in_state_SomeD:
  "first_in_state st pool = Some i \<Longrightarrow>
     i < TCPIP_MEM_POOL_SIZE \<and> mp_state (pool ! i) = st \<and> (\<forall>j<i. mp_state (pool ! j) \<noteq> st)"
  by (fastforce simp: first_in_state_def find_Some_iff)

lemma first_in_state_None:
  "first_in_state st pool = None \<longleftrightarrow> (\<forall>i<TCPIP_MEM_POOL_SIZE. mp_state (pool ! i) \<noteq> st)"
  by (auto simp: first_in_state_def find_None_iff)

lemma get_new_first:
  "get_new_tcpip_mpool pool =
     (case first_in_state MPOOL_FREE pool of
        None \<Rightarrow> (NullNode, pool)
      | Some j \<Rightarrow> (Node (int j), pool[j := (pool ! j)\<lparr>mp_state := MPOOL_ACQUIRED\<rparr>]))"
  by (simp add: get_new_tcpip_mpool_def get_new_loop_find first_in_state_def)

lemma w_data_first:
  "get_tcpip_mpool_w_data pool =
     (case first_in_state MPOOL_DATA_FILLED pool of None \<Rightarrow> NullNode | Some j \<Rightarrow> Node (int j))"
  by (simp add: get_tcpip_mpool_w_data_def w_data_loop_find first_in_state_def)

subsection \<open>Well-formed pools and the slots in use\<close>

definition pool_wf :: "mem_pool \<Rightarrow> bool" where
  "pool_wf pool \<longleftrightarrow>
     length pool = TCPIP_MEM_POOL_SIZE \<and>
     (\<forall>n \<in> set pool. mp_next n = NullNode \<and> mp_state n \<in> {MPOOL_FREE, MPOOL_ACQUIRED})"

definition owned :: "mem_pool \<Rightarrow> nat set" where
  "owned pool = {i. i < length pool \<and> mp_state (pool ! i) \<noteq> MPOOL_FREE}"

lemma pool_wf_length [simp]: "pool_wf pool \<Longrightarrow> length pool = TCPIP_MEM_POOL_SIZE"
  by (simp add: pool_wf_def)

lemma pool_wf_init [simp]: "pool_wf TcpIp_MemPool_init"
  by (simp add: pool_wf_def TcpIp_MemPool_init_def)

lemma owned_init [simp]: "owned TcpIp_MemPool_init = {}"
  by (auto simp: owned_def TcpIp_MemPool_init_def)

lemma pool_wf_update:
  "pool_wf pool \<Longrightarrow> mp_next n = NullNode \<Longrightarrow> mp_state n \<in> {MPOOL_FREE, MPOOL_ACQUIRED} \<Longrightarrow>
     pool_wf (pool[i := n])"
  by (auto simp: pool_wf_def dest!: set_update_subset_insert [THEN subsetD])

lemma pool_wf_nth:
  "pool_wf pool \<Longrightarrow> i < TCPIP_MEM_POOL_SIZE \<Longrightarrow>
     mp_next (pool ! i) = NullNode \<and> mp_state (pool ! i) \<in> {MPOOL_FREE, MPOOL_ACQUIRED}"
  by (auto simp: pool_wf_def)

lemma owned_update:
  "i < length pool \<Longrightarrow>
     owned (pool[i := n]) =
       (if mp_state n = MPOOL_FREE then owned pool - {i} else insert i (owned pool))"
  by (auto simp: owned_def nth_list_update)

lemma owned_bound: "pool_wf pool \<Longrightarrow> owned pool \<subseteq> {..<TCPIP_MEM_POOL_SIZE}"
  by (auto simp: owned_def)

lemma owned_full_iff:
  "pool_wf pool \<Longrightarrow>
     owned pool = {..<TCPIP_MEM_POOL_SIZE} \<longleftrightarrow> first_in_state MPOOL_FREE pool = None"
  by (auto simp: owned_def first_in_state_None)

subsection \<open>The allocator contract\<close>

text \<open>
  What the receive queue may assume of the pool: a free slot is handed out if there is one,
  the slot is not in use, and giving back a slot in use makes exactly that slot free again.
\<close>

locale slot_allocator =
  fixes alloc :: "'p \<Rightarrow> 'ptr \<times> 'p"
    and free :: "'ptr \<Rightarrow> 'p \<Rightarrow> (bool \<times> 'p) result"
    and null :: 'ptr
    and slot :: "nat \<Rightarrow> 'ptr"
    and used :: "'p \<Rightarrow> nat set"
    and wf :: "'p \<Rightarrow> bool"
    and cap :: nat
  assumes used_bound: "wf p \<Longrightarrow> used p \<subseteq> {..<cap}"
    and slot_not_null: "slot i \<noteq> null"
    and slot_inj: "slot i = slot j \<longleftrightarrow> i = j"
    and alloc_some: "wf p \<Longrightarrow> used p \<noteq> {..<cap} \<Longrightarrow>
      \<exists>i p'. alloc p = (slot i, p') \<and> i < cap \<and> i \<notin> used p \<and> used p' = insert i (used p) \<and> wf p'"
    and alloc_full: "wf p \<Longrightarrow> used p = {..<cap} \<Longrightarrow> alloc p = (null, p)"
    and free_used: "wf p \<Longrightarrow> i \<in> used p \<Longrightarrow>
      \<exists>p'. free (slot i) p = Inr (True, p') \<and> used p' = used p - {i} \<and> wf p'"
begin

lemma finite_used: "wf p \<Longrightarrow> finite (used p)"
  by (rule finite_subset [OF used_bound]) auto

lemma card_used: "wf p \<Longrightarrow> card (used p) \<le> cap"
  by (drule used_bound, drule card_mono [OF finite_lessThan]) simp

lemma card_full: "wf p \<Longrightarrow> card (used p) = cap \<longleftrightarrow> used p = {..<cap}"
  by (drule used_bound) (auto dest: card_subset_eq [OF finite_lessThan])

lemma alloc_cases:
  assumes "wf p"
  obtains (full) "used p = {..<cap}" "card (used p) = cap" "alloc p = (null, p)"
  | (some) i p' where "card (used p) < cap" "alloc p = (slot i, p')" "i < cap" "i \<notin> used p"
      "used p' = insert i (used p)" "wf p'"
proof (cases "used p = {..<cap}")
  case True
  with assms show ?thesis by (intro full) (simp_all add: alloc_full)
next
  case False
  with assms have "card (used p) < cap" using card_full card_used le_neq_implies_less by blast
  with alloc_some [OF assms False] show ?thesis by (blast intro: some)
qed

lemma alloc_null_iff: "wf p \<Longrightarrow> fst (alloc p) = null \<longleftrightarrow> card (used p) = cap"
  by (erule alloc_cases) (simp_all add: slot_not_null)

lemma alloc_wf: "wf p \<Longrightarrow> wf (snd (alloc p))"
  by (rule alloc_cases [of p]) simp_all

lemma alloc_card:
  assumes "wf p"
  shows "card (used (snd (alloc p))) = min cap (card (used p) + 1)"
  using assms
proof (cases rule: alloc_cases)
  case full
  then show ?thesis by simp
next
  case (some i p')
  then show ?thesis using finite_used [OF assms] by simp
qed

text \<open>Handing out and giving back is the identity on the slots in use.\<close>

lemma alloc_free:
  assumes "wf p" and "alloc p = (q, p')" and "q \<noteq> null"
  shows "\<exists>p''. free q p' = Inr (True, p'') \<and> used p'' = used p \<and> wf p''"
  using assms(1)
proof (cases rule: alloc_cases)
  case full
  with assms show ?thesis by simp
next
  case (some i r)
  with assms free_used [of r i] show ?thesis by auto
qed

text \<open>Two slots handed out one after the other are different.\<close>

lemma alloc_fresh:
  assumes "wf p" and "alloc p = (q, p1)" and "alloc p1 = (r, p2)" and "r \<noteq> null"
  shows "q \<noteq> r"
  using assms(1)
proof (cases rule: alloc_cases)
  case full
  with assms show ?thesis by simp
next
  case (some i p')
  then have i: "q = slot i" "i \<in> used p1" "wf p1" using assms(2) by auto
  from i(3) show ?thesis
    by (cases rule: alloc_cases) (use assms i slot_inj in auto)
qed

text \<open>The capacity is exact: after \<open>n\<close> requests \<open>min cap n\<close> more slots are in use.\<close>

lemma alloc_many:
  "wf p \<Longrightarrow>
     wf (((\<lambda>p. snd (alloc p)) ^^ n) p) \<and>
     card (used (((\<lambda>p. snd (alloc p)) ^^ n) p)) = min cap (card (used p) + n)"
proof (induction n)
  case 0
  then show ?case using card_used by fastforce
next
  case (Suc n)
  then show ?case by (simp add: alloc_wf alloc_card)
qed

end

text \<open>The pool of the code keeps the contract.\<close>

lemma get_new_some:
  assumes "pool_wf pool" and "owned pool \<noteq> {..<TCPIP_MEM_POOL_SIZE}"
  shows "\<exists>i pool'. get_new_tcpip_mpool pool = (Node (int i), pool') \<and> i < TCPIP_MEM_POOL_SIZE \<and>
    i \<notin> owned pool \<and> owned pool' = insert i (owned pool) \<and> pool_wf pool'"
proof -
  from assms obtain i where i: "first_in_state MPOOL_FREE pool = Some i"
    using owned_full_iff by blast
  from first_in_state_SomeD [OF this] assms(1) have "i < length pool" "i \<notin> owned pool"
    by (auto simp: owned_def)
  then show ?thesis using assms(1) i pool_wf_nth [OF assms(1)]
    by (auto simp: get_new_first owned_update intro!: pool_wf_update)
qed

lemma get_new_full:
  "pool_wf pool \<Longrightarrow> owned pool = {..<TCPIP_MEM_POOL_SIZE} \<Longrightarrow>
     get_new_tcpip_mpool pool = (NullNode, pool)"
  using owned_full_iff by (simp add: get_new_first)

lemma free_owned:
  assumes "pool_wf pool" and "i \<in> owned pool"
  shows "\<exists>pool'. free_tcpip_mpool (Node (int i)) pool = Inr (True, pool') \<and>
    owned pool' = owned pool - {i} \<and> pool_wf pool'"
proof -
  from assms have "i < length pool" by (simp add: owned_def)
  then show ?thesis using assms(1) pool_wf_nth [OF assms(1), of i]
    by (auto simp: free_tcpip_mpool_def in_mpool_range_def owned_update intro!: pool_wf_update)
qed

interpretation mp: slot_allocator
  get_new_tcpip_mpool free_tcpip_mpool NullNode "\<lambda>i. Node (int i)" owned pool_wf TCPIP_MEM_POOL_SIZE
  by unfold_locales (simp_all add: owned_bound get_new_some get_new_full free_owned)

subsection \<open>Properties\<close>

text \<open>The two searches of the pool stop at the first slot, in array order, that is in the
  state they look for; an allocation changes the state of that slot and nothing else, and with
  no such slot both return NULL and leave the pool alone.\<close>
lemma pool_searches_find_first:
  "get_new_tcpip_mpool pool =
     (case first_in_state MPOOL_FREE pool of
        None \<Rightarrow> (NullNode, pool)
      | Some j \<Rightarrow> (Node (int j), pool[j := (pool ! j)\<lparr>mp_state := MPOOL_ACQUIRED\<rparr>]))
   \<and> get_tcpip_mpool_w_data pool =
     (case first_in_state MPOOL_DATA_FILLED pool of None \<Rightarrow> NullNode | Some j \<Rightarrow> Node (int j))"
  by (simp add: get_new_first w_data_first)

text \<open>\<open>free_tcpip_mpool\<close> on every pointer. A pointer to a slot frees it, a pointer
  outside the range is refused, and the pointer one past the last slot, which the guard's
  \<open><=\<close> admits, writes outside the array.\<close>
theorem free_mpool_outcome:
  assumes "length pool = TCPIP_MEM_POOL_SIZE"
  shows "free_tcpip_mpool p pool =
    (case p of
       NullNode \<Rightarrow> Inr (False, pool)
     | Node k \<Rightarrow>
         if 0 \<le> k \<and> k < int TCPIP_MEM_POOL_SIZE
         then Inr (True, pool[nat k := (pool ! nat k)\<lparr>mp_state := MPOOL_FREE\<rparr>])
         else if k = int TCPIP_MEM_POOL_SIZE then Inl OutOfBounds
         else Inr (False, pool))"
  using assms
  by (auto simp: free_tcpip_mpool_def in_mpool_range_def load_node_def store_node_def
      split: mpool_ptr.splits)

theorem free_mpool_outcome_witness:
  "free_tcpip_mpool (Node 5) TcpIp_MemPool_init = Inl OutOfBounds
   \<and> free_tcpip_mpool (Node (-1)) TcpIp_MemPool_init = Inr (False, TcpIp_MemPool_init)"
  using free_mpool_outcome [of TcpIp_MemPool_init "Node 5"]
    free_mpool_outcome [of TcpIp_MemPool_init "Node (-1)"]
  by (simp add: TcpIp_MemPool_init_def TCPIP_MEM_POOL_SIZE_def)

text \<open>C40: allocating a slot of a well-formed pool and giving it back. An allocation that succeeds returns the first slot,
  in array order, that is free, marks it acquired and changes nothing else of the pool; giving
  the slot back then succeeds and restores the whole pool exactly. An allocation that fails
  found no free slot and changed nothing.\<close>
theorem pool_alloc_free_roundtrip:
  assumes "pool_wf pool" and "get_new_tcpip_mpool pool = (p, pool')"
  shows "if p = NullNode
    then pool' = pool \<and> (\<forall>j < TCPIP_MEM_POOL_SIZE. mp_state (pool ! j) \<noteq> MPOOL_FREE)
    else \<exists>i < TCPIP_MEM_POOL_SIZE. p = Node (int i) \<and> mp_state (pool ! i) = MPOOL_FREE \<and>
      (\<forall>j < i. mp_state (pool ! j) \<noteq> MPOOL_FREE) \<and>
      pool' = pool[i := (pool ! i)\<lparr>mp_state := MPOOL_ACQUIRED\<rparr>] \<and>
      free_tcpip_mpool p pool' = Inr (True, pool)"
proof (cases "first_in_state MPOOL_FREE pool")
  case None
  with assms(2) show ?thesis by (simp add: get_new_first first_in_state_None)
next
  case (Some i)
  from pool_wf_length [OF assms(1)] first_in_state_SomeD [OF Some] have i: "i < length pool"
    "mp_state (pool ! i) = MPOOL_FREE" by simp_all
  then have "(pool ! i)\<lparr>mp_state := MPOOL_FREE\<rparr> = pool ! i" by (cases "pool ! i") simp
  then have "pool[i := (pool ! i)\<lparr>mp_state := MPOOL_FREE\<rparr>] = pool" by simp
  with first_in_state_SomeD [OF Some] i assms Some show ?thesis
    by (auto simp: get_new_first free_tcpip_mpool_def in_mpool_range_def load_node_def
        store_node_def intro!: exI [of _ i])
qed

theorem pool_alloc_free_roundtrip_witness:
  "\<exists>p pool' i. get_new_tcpip_mpool TcpIp_MemPool_init = (p, pool') \<and> p = Node (int i) \<and>
     pool' = TcpIp_MemPool_init[i := (TcpIp_MemPool_init ! i)\<lparr>mp_state := MPOOL_ACQUIRED\<rparr>] \<and>
     free_tcpip_mpool p pool' = Inr (True, TcpIp_MemPool_init)"
proof -
  obtain p pool' where get: "get_new_tcpip_mpool TcpIp_MemPool_init = (p, pool')"
    by (cases "get_new_tcpip_mpool TcpIp_MemPool_init")
  then have "p \<noteq> NullNode"
    using mp.alloc_null_iff [OF pool_wf_init] by (simp add: TCPIP_MEM_POOL_SIZE_def)
  with pool_alloc_free_roundtrip [OF pool_wf_init get] get show ?thesis by auto
qed

text \<open>The capacity is exact. After \<open>n\<close> requests on the initial pool, \<open>min 5 n\<close>
  slots are in use, and the next request gets NULL if and only if \<open>n\<close> is at least 5.\<close>
theorem pool_capacity_exact:
  "card (owned (((\<lambda>p. snd (get_new_tcpip_mpool p)) ^^ n) TcpIp_MemPool_init)) = min 5 n \<and>
   (fst (get_new_tcpip_mpool (((\<lambda>p. snd (get_new_tcpip_mpool p)) ^^ n) TcpIp_MemPool_init)) = NullNode
      \<longleftrightarrow> 5 \<le> n)"
  using mp.alloc_many [OF pool_wf_init, of n]
  by (simp add: mp.alloc_null_iff TCPIP_MEM_POOL_SIZE_def min_def)

end
