(* ===== verification/Mailbox.thy ===== *)
theory Mailbox
  imports Prelude
begin

text \<open>
  Abstract message buffers and the interface between the receive queue and its clients: the
  one-place box (a second message is refused while one is waiting), the unbounded FIFO that
  the code's comments describe, runs of a concrete buffer, and the locale \<open>mailbox\<close>, in
  which a buffer with the one-place laws is shown to refine the box, and to agree with the
  FIFO exactly as long as nothing is put into a full box.
\<close>

datatype 'm box_op = Put 'm | Get

text \<open>
  The outputs of a run of operations and the final contents; \<open>none\<close> is the answer of
  \<open>Get\<close> on an empty buffer.
\<close>

fun box_spec :: "'m \<Rightarrow> 'm option \<Rightarrow> 'm box_op list \<Rightarrow> 'm list \<times> 'm option" where
  "box_spec none c [] = ([], c)"
| "box_spec none c (Put m # ops) =
     box_spec none (case c of None \<Rightarrow> Some m | Some x \<Rightarrow> Some x) ops"
| "box_spec none c (Get # ops) =
     (let (out, c') = box_spec none None ops
      in ((case c of None \<Rightarrow> none | Some x \<Rightarrow> x) # out, c'))"

fun fifo_spec :: "'m \<Rightarrow> 'm list \<Rightarrow> 'm box_op list \<Rightarrow> 'm list \<times> 'm list" where
  "fifo_spec none q [] = ([], q)"
| "fifo_spec none q (Put m # ops) = fifo_spec none (q @ [m]) ops"
| "fifo_spec none q (Get # ops) =
     (let (out, q') = fifo_spec none (tl q) ops
      in ((case q of [] \<Rightarrow> none | x # _ \<Rightarrow> x) # out, q'))"

fun box_run :: "('m \<Rightarrow> 's \<Rightarrow> 's result) \<Rightarrow> ('s \<Rightarrow> ('m \<times> 's) result) \<Rightarrow> 'm box_op list \<Rightarrow> 's
    \<Rightarrow> ('m list \<times> 's) result" where
  "box_run put get [] s = Inr ([], s)"
| "box_run put get (Put m # ops) s = rbind (put m s) (box_run put get ops)"
| "box_run put get (Get # ops) s =
     rbind (get s) (\<lambda>(m, s1). rbind (box_run put get ops s1) (\<lambda>(out, s2). Inr (m # out, s2)))"

text \<open>The messages put into the buffer in a run.\<close>

fun puts :: "'m box_op list \<Rightarrow> 'm list" where
  "puts [] = []"
| "puts (Put m # ops) = m # puts ops"
| "puts (Get # ops) = puts ops"

lemma puts_append [simp]: "puts (xs @ ys) = puts xs @ puts ys"
  by (induction xs rule: puts.induct) auto

lemma box_run_append:
  "box_run put get (xs @ ys) s = rbind (box_run put get xs s) (\<lambda>(out, t).
     rbind (box_run put get ys t) (\<lambda>(out', u). Inr (out @ out', u)))"
proof (induction xs arbitrary: s)
  case Nil
  then show ?case by (cases "box_run put get ys s") auto
next
  case (Cons op xs)
  then show ?case by (cases op) (auto simp: rbind_assoc split_beta intro!: rbind_cong)
qed

text \<open>Nothing is put while a message is waiting (\<open>b\<close>: one is waiting at the start).\<close>

fun paced :: "bool \<Rightarrow> 'm box_op list \<Rightarrow> bool" where
  "paced b [] = True"
| "paced b (Put m # ops) = (\<not> b \<and> paced True ops)"
| "paced b (Get # ops) = paced False ops"

definition opt_list :: "'m option \<Rightarrow> 'm list" where
  "opt_list c = (case c of None \<Rightarrow> [] | Some x \<Rightarrow> [x])"

lemma opt_list_simps [simp]: "opt_list None = []" "opt_list (Some x) = [x]"
  by (simp_all add: opt_list_def)

lemma box_puts [simp]: "box_spec none (Some m) (map Put ms @ ops) = box_spec none (Some m) ops"
  by (induction ms) auto

lemma box_fifo_paced:
  "paced (c \<noteq> None) ops \<Longrightarrow>
     fifo_spec none (opt_list c) ops =
       (fst (box_spec none c ops), opt_list (snd (box_spec none c ops)))"
proof (induction none c ops rule: box_spec.induct)
  case (1 none c)
  then show ?case by simp
next
  case (2 none c m ops)
  then show ?case by (cases c) auto
next
  case (3 none c ops)
  then show ?case by (cases c) (auto split: prod.splits)
qed

locale mailbox =
  fixes put :: "'m \<Rightarrow> 's \<Rightarrow> 's result"
    and get :: "'s \<Rightarrow> ('m \<times> 's) result"
    and none :: 'm
    and content :: "'s \<Rightarrow> 'm option"
    and inv :: "'s \<Rightarrow> bool"
  assumes put_law: "inv s \<Longrightarrow> returns (put m s) (\<lambda>s'. inv s' \<and>
      content s' = (case content s of None \<Rightarrow> Some m | Some x \<Rightarrow> Some x))"
    and get_law: "inv s \<Longrightarrow> returns (get s) (\<lambda>(m, s'). inv s' \<and> content s' = None \<and>
      m = (case content s of None \<Rightarrow> none | Some x \<Rightarrow> x))"
begin

lemma run_refines:
  "inv s \<Longrightarrow> returns (box_run put get ops s)
     (\<lambda>(out, s'). inv s' \<and> (out, content s') = box_spec none (content s) ops)"
proof (induction ops arbitrary: s)
  case Nil
  then show ?case by simp
next
  case (Cons op ops)
  show ?case
  proof (cases op)
    case (Put m)
    from put_law [OF Cons.prems, of m] obtain s1 where "put m s = Inr s1" "inv s1"
      "content s1 = (case content s of None \<Rightarrow> Some m | Some x \<Rightarrow> Some x)"
      by (auto simp: returns_iff)
    with Put Cons.IH [of s1] show ?thesis by simp
  next
    case Get
    from get_law [OF Cons.prems] obtain m s1 where "get s = Inr (m, s1)" "inv s1"
      "content s1 = None" "m = (case content s of None \<Rightarrow> none | Some x \<Rightarrow> x)"
      by (auto simp: returns_iff)
    with Get Cons.IH [of s1] show ?thesis by (auto simp: returns_iff split: prod.splits)
  qed
qed

text \<open>A burst into an empty box: the first message is delivered, the rest are lost.\<close>

lemma burst_first_only:
  assumes "inv s" and "content s = None"
  shows "returns (box_run put get (map Put (m # ms) @ [Get, Get]) s) (\<lambda>(out, s'). out = [m, none])"
  using run_refines [OF assms(1), of "map Put (m # ms) @ [Get, Get]"] assms(2)
  by (auto simp: returns_iff)

lemma paced_fifo:
  assumes "inv s" and "paced (content s \<noteq> None) ops"
  shows "returns (box_run put get ops s)
    (\<lambda>(out, s'). inv s' \<and> (out, opt_list (content s')) = fifo_spec none (opt_list (content s)) ops)"
  using run_refines [OF assms(1), of ops] box_fifo_paced [OF assms(2), of none]
  by (auto simp: returns_iff prod_eq_iff)

end

end
