(* ===== verification/Rx_Queue.thy ===== *)
theory Rx_Queue
  imports Mpool Mailbox
begin

text \<open>
  The receive control block of \<open>src/TcpIp.c\<close> (lines 36 to 118): a counter and a linked
  list of pool nodes, filled by \<open>push_to_rx_ctrl_blk\<close> and emptied by
  \<open>pop_pbuf_from_rx_ctrl_blk\<close>.
\<close>

subsection \<open>State and operations\<close>

record rx_ctrl_blk =
  rx_buf_cnt :: u16
  rx_bufhead :: mpool_ptr

text \<open>The static variables the two operations work on.\<close>

record rx_state =
  TcpIp_MemPool :: mem_pool
  TcpIp_Rx_CtrlBlk :: rx_ctrl_blk

definition rx_init :: rx_state where
  "rx_init = \<lparr>TcpIp_MemPool = TcpIp_MemPool_init,
     TcpIp_Rx_CtrlBlk = \<lparr>rx_buf_cnt = 0, rx_bufhead = NullNode\<rparr>\<rparr>"

text \<open>
  The do-while loop of \<open>push_to_rx_ctrl_blk\<close>, from a node: \<open>None\<close> if the list is
  cyclic and the loop never ends.
\<close>

partial_function (option) walk_to_end :: "mem_pool \<Rightarrow> mpool_ptr \<Rightarrow> mpool_ptr result option" where
  "walk_to_end pool p_last_node =
     (case load_node pool p_last_node of
        Inl f \<Rightarrow> Some (Inl f)
      | Inr n \<Rightarrow> (if mp_next n \<noteq> NullNode then walk_to_end pool (mp_next n) else Some (Inr NullNode)))"

text \<open>
  \<open>push_to_rx_ctrl_blk\<close>. The last assignment of the source, \<open>p_last_node = p_rxbuf\<close>,
  is to a local variable that is not read again.
\<close>

definition push_to_rx_ctrl_blk :: "cptr \<Rightarrow> rx_state \<Rightarrow> rx_state result" where
  "push_to_rx_ctrl_blk pbuf s =
     (let p_last_node = rx_bufhead (TcpIp_Rx_CtrlBlk s);
          (p_rxbuf, pool) = get_new_tcpip_mpool (TcpIp_MemPool s);
          s = s\<lparr>TcpIp_MemPool := pool\<rparr>
      in if p_rxbuf = NullNode then Inr s
         else
           let cb = TcpIp_Rx_CtrlBlk s;
               cb = cb\<lparr>rx_buf_cnt := rx_buf_cnt cb + 1\<rparr>;
               s = s\<lparr>TcpIp_Rx_CtrlBlk := cb\<rparr>
           in rbind (load_node pool p_rxbuf) (\<lambda>n.
              rbind (store_node pool p_rxbuf (n\<lparr>mp_pbuf := pbuf\<rparr>)) (\<lambda>pool.
              let s = s\<lparr>TcpIp_MemPool := pool\<rparr>
              in if p_last_node = NullNode
                 then Inr (s\<lparr>TcpIp_Rx_CtrlBlk := cb\<lparr>rx_bufhead := p_rxbuf\<rparr>\<rparr>)
                 else (case walk_to_end pool p_last_node of
                         None \<Rightarrow> Inl NoReturn
                       | Some r \<Rightarrow> rbind r (\<lambda>_. Inr s)))))"

definition pop_pbuf_from_rx_ctrl_blk :: "rx_state \<Rightarrow> (cptr \<times> rx_state) result" where
  "pop_pbuf_from_rx_ctrl_blk s =
     (let cb = TcpIp_Rx_CtrlBlk s
      in if rx_buf_cnt cb \<noteq> 0 then
           let p_head = rx_bufhead cb
           in rbind
                (if p_head \<noteq> NullNode then
                   rbind (load_node (TcpIp_MemPool s) p_head) (\<lambda>n.
                   rbind (free_tcpip_mpool p_head (TcpIp_MemPool s)) (\<lambda>(_, pool).
                   Inr (mp_pbuf n,
                        s\<lparr>TcpIp_MemPool := pool, TcpIp_Rx_CtrlBlk := cb\<lparr>rx_bufhead := mp_next n\<rparr>\<rparr>)))
                 else Inr (None, s))
                (\<lambda>(pbuf, s).
                 let cb = TcpIp_Rx_CtrlBlk s
                 in Inr (pbuf, s\<lparr>TcpIp_Rx_CtrlBlk := cb\<lparr>rx_buf_cnt := rx_buf_cnt cb - 1\<rparr>\<rparr>))
         else Inr (None, s))"

subsection \<open>The invariant of the control block\<close>

abbreviation rx_head :: "rx_state \<Rightarrow> mpool_ptr" where
  "rx_head s \<equiv> rx_bufhead (TcpIp_Rx_CtrlBlk s)"

abbreviation rx_cnt :: "rx_state \<Rightarrow> u16" where
  "rx_cnt s \<equiv> rx_buf_cnt (TcpIp_Rx_CtrlBlk s)"

abbreviation rx_owned :: "rx_state \<Rightarrow> nat set" where
  "rx_owned s \<equiv> owned (TcpIp_MemPool s)"

text \<open>
  No node has a successor, the head is NULL or a slot in use, the counter lies between the
  number of queued nodes and the number of slots in use, and with an empty queue a slot is free.
\<close>

definition rx_inv :: "rx_state \<Rightarrow> bool" where
  "rx_inv s \<longleftrightarrow>
     pool_wf (TcpIp_MemPool s) \<and>
     unat (rx_cnt s) \<le> card (rx_owned s) \<and>
     (case rx_head s of
        NullNode \<Rightarrow> card (rx_owned s) < TCPIP_MEM_POOL_SIZE
      | Node k \<Rightarrow> 0 \<le> k \<and> nat k \<in> rx_owned s \<and> 0 < unat (rx_cnt s))"

text \<open>What waits in the queue, and the slots in use that the queue does not reach.\<close>

definition rx_content :: "rx_state \<Rightarrow> cptr option" where
  "rx_content s =
     (case rx_head s of NullNode \<Rightarrow> None | Node k \<Rightarrow> Some (mp_pbuf (TcpIp_MemPool s ! nat k)))"

definition rx_leaked :: "rx_state \<Rightarrow> nat" where
  "rx_leaked s = card (rx_owned s) - (if rx_head s = NullNode then 0 else 1)"

lemma rx_inv_init: "rx_inv rx_init"
  by (simp add: rx_inv_def rx_init_def TCPIP_MEM_POOL_SIZE_def)

lemma rx_init_content [simp]: "rx_content rx_init = None"
  by (simp add: rx_content_def rx_init_def)

lemma rx_inv_cases:
  assumes "rx_inv s"
  obtains (empty) "rx_head s = NullNode" "card (rx_owned s) < TCPIP_MEM_POOL_SIZE"
  | (waiting) i where "rx_head s = Node (int i)" "i \<in> rx_owned s" "i < TCPIP_MEM_POOL_SIZE"
      "0 < unat (rx_cnt s)"
proof (cases "rx_head s")
  case NullNode
  with assms show ?thesis by (intro empty) (auto simp: rx_inv_def)
next
  case (Node k)
  with assms owned_bound [of "TcpIp_MemPool s"] show ?thesis
    by (intro waiting [of "nat k"]) (auto simp: rx_inv_def)
qed

text \<open>The walk over a list without successors ends after one step.\<close>

lemma walk_singleton:
  "i < length pool \<Longrightarrow> mp_next (pool ! i) = NullNode \<Longrightarrow>
     walk_to_end pool (Node (int i)) = Some (Inr NullNode)"
  by (subst walk_to_end.simps) simp

text \<open>Under the invariant both operations are total; this is what they compute.\<close>

definition push_value :: "cptr \<Rightarrow> rx_state \<Rightarrow> rx_state" where
  "push_value pbuf s =
     (case first_in_state MPOOL_FREE (TcpIp_MemPool s) of
        None \<Rightarrow> s
      | Some j \<Rightarrow>
          s\<lparr>TcpIp_MemPool := (TcpIp_MemPool s)[j := (TcpIp_MemPool s ! j)
              \<lparr>mp_state := MPOOL_ACQUIRED, mp_pbuf := pbuf\<rparr>],
            TcpIp_Rx_CtrlBlk := (TcpIp_Rx_CtrlBlk s)\<lparr>rx_buf_cnt := rx_cnt s + 1,
              rx_bufhead := (if rx_head s = NullNode then Node (int j) else rx_head s)\<rparr>\<rparr>)"

lemma push_wf:
  assumes wf: "pool_wf (TcpIp_MemPool s)"
    and head: "rx_head s = NullNode \<or> (\<exists>i < TCPIP_MEM_POOL_SIZE. rx_head s = Node (int i))"
  shows "push_to_rx_ctrl_blk pbuf s = Inr (push_value pbuf s)"
proof (cases "first_in_state MPOOL_FREE (TcpIp_MemPool s)")
  case None
  then show ?thesis by (simp add: push_to_rx_ctrl_blk_def push_value_def get_new_first)
next
  case (Some j)
  note len = pool_wf_length [OF wf] and j = first_in_state_SomeD [OF Some]
  from head show ?thesis
  proof
    assume "rx_head s = NullNode"
    with Some j len show ?thesis
      by (simp add: push_to_rx_ctrl_blk_def push_value_def get_new_first Let_def)
  next
    assume "\<exists>i < TCPIP_MEM_POOL_SIZE. rx_head s = Node (int i)"
    then obtain i where "rx_head s = Node (int i)" "i < TCPIP_MEM_POOL_SIZE" by blast
    with pool_wf_nth [OF wf, of i] pool_wf_nth [OF wf, of j] Some j len show ?thesis
      by (simp add: push_to_rx_ctrl_blk_def push_value_def get_new_first walk_singleton
          nth_list_update Let_def)
  qed
qed

lemma rx_inv_head:
  "rx_inv s \<Longrightarrow> rx_head s = NullNode \<or> (\<exists>i < TCPIP_MEM_POOL_SIZE. rx_head s = Node (int i))"
  by (erule rx_inv_cases) auto

lemma push_eq: "rx_inv s \<Longrightarrow> push_to_rx_ctrl_blk pbuf s = Inr (push_value pbuf s)"
  using rx_inv_head [of s] by (intro push_wf) (auto simp: rx_inv_def)

lemma pop_empty:
  "rx_head s = NullNode \<Longrightarrow>
     pop_pbuf_from_rx_ctrl_blk s =
       Inr (None, if rx_cnt s = 0 then s
         else s\<lparr>TcpIp_Rx_CtrlBlk := (TcpIp_Rx_CtrlBlk s)\<lparr>rx_buf_cnt := rx_cnt s - 1\<rparr>\<rparr>)"
  by (simp add: pop_pbuf_from_rx_ctrl_blk_def Let_def)

lemma pop_wf:
  assumes wf: "pool_wf (TcpIp_MemPool s)" and head: "rx_head s = Node (int i)"
    and i: "i < TCPIP_MEM_POOL_SIZE" and cnt: "rx_cnt s \<noteq> 0"
  shows "pop_pbuf_from_rx_ctrl_blk s =
    Inr (mp_pbuf (TcpIp_MemPool s ! i),
         s\<lparr>TcpIp_MemPool := (TcpIp_MemPool s)[i := (TcpIp_MemPool s ! i)\<lparr>mp_state := MPOOL_FREE\<rparr>],
           TcpIp_Rx_CtrlBlk := (TcpIp_Rx_CtrlBlk s)\<lparr>rx_buf_cnt := rx_cnt s - 1,
             rx_bufhead := NullNode\<rparr>\<rparr>)"
  using cnt head pool_wf_nth [OF wf i] pool_wf_length [OF wf] i
  by (simp add: pop_pbuf_from_rx_ctrl_blk_def free_tcpip_mpool_def in_mpool_range_def Let_def)

lemma pop_waiting:
  assumes inv: "rx_inv s" and head: "rx_head s = Node (int i)" and cnt: "0 < unat (rx_cnt s)"
  shows "pop_pbuf_from_rx_ctrl_blk s =
    Inr (mp_pbuf (TcpIp_MemPool s ! i),
         s\<lparr>TcpIp_MemPool := (TcpIp_MemPool s)[i := (TcpIp_MemPool s ! i)\<lparr>mp_state := MPOOL_FREE\<rparr>],
           TcpIp_Rx_CtrlBlk := (TcpIp_Rx_CtrlBlk s)\<lparr>rx_buf_cnt := rx_cnt s - 1,
             rx_bufhead := NullNode\<rparr>\<rparr>)"
  using inv cnt owned_bound by (intro pop_wf [OF _ head]) (auto simp: rx_inv_def head)

subsection \<open>Both operations keep the invariant\<close>

lemma rx_owned_card: "rx_inv s \<Longrightarrow> card (rx_owned s) \<le> TCPIP_MEM_POOL_SIZE"
  by (simp add: rx_inv_def mp.card_used)

lemma rx_cnt_bound: "rx_inv s \<Longrightarrow> unat (rx_cnt s) \<le> TCPIP_MEM_POOL_SIZE"
  using rx_owned_card [of s] by (simp add: rx_inv_def)

text \<open>A slot for a new message is missing only while a message is waiting.\<close>

lemma rx_empty_has_slot:
  "rx_inv s \<Longrightarrow> rx_head s = NullNode \<Longrightarrow> \<exists>j. first_in_state MPOOL_FREE (TcpIp_MemPool s) = Some j"
  using owned_full_iff [of "TcpIp_MemPool s"] by (fastforce simp: rx_inv_def)

text \<open>The parts of the state after a successful allocation.\<close>

lemma push_value_parts:
  assumes inv: "rx_inv s" and j: "first_in_state MPOOL_FREE (TcpIp_MemPool s) = Some j"
  shows "rx_owned (push_value pbuf s) = insert j (rx_owned s)"
    and "j \<notin> rx_owned s"
    and "j < length (TcpIp_MemPool s)"
    and "pool_wf (TcpIp_MemPool (push_value pbuf s))"
    and "unat (rx_cnt (push_value pbuf s)) = Suc (unat (rx_cnt s))"
    and "rx_head (push_value pbuf s) = (if rx_head s = NullNode then Node (int j) else rx_head s)"
proof -
  from inv have wf: "pool_wf (TcpIp_MemPool s)" by (simp add: rx_inv_def)
  with first_in_state_SomeD [OF j] show len: "j < length (TcpIp_MemPool s)" by simp
  with first_in_state_SomeD [OF j] show "j \<notin> rx_owned s" by (simp add: owned_def)
  from len j show "rx_owned (push_value pbuf s) = insert j (rx_owned s)"
    by (simp add: push_value_def owned_update)
  from wf j len pool_wf_nth [OF wf, of j] show "pool_wf (TcpIp_MemPool (push_value pbuf s))"
    by (simp add: push_value_def pool_wf_update)
  from rx_cnt_bound [OF inv] j show "unat (rx_cnt (push_value pbuf s)) = Suc (unat (rx_cnt s))"
    by (simp add: push_value_def unat_inc16 TCPIP_MEM_POOL_SIZE_def)
  from j show "rx_head (push_value pbuf s) = (if rx_head s = NullNode then Node (int j) else rx_head s)"
    by (simp add: push_value_def)
qed

lemma push_value_full:
  "first_in_state MPOOL_FREE (TcpIp_MemPool s) = None \<Longrightarrow> push_value pbuf s = s"
  by (simp add: push_value_def)

lemma push_value_inv:
  assumes inv: "rx_inv s"
  shows "rx_inv (push_value pbuf s)"
proof (cases "first_in_state MPOOL_FREE (TcpIp_MemPool s)")
  case None
  with inv show ?thesis by (simp add: push_value_full)
next
  case (Some j)
  note parts = push_value_parts [OF inv Some]
  from inv have fin: "finite (rx_owned s)" by (simp add: rx_inv_def mp.finite_used)
  from inv show ?thesis
  proof (cases rule: rx_inv_cases)
    case empty
    with inv parts fin show ?thesis by (simp add: rx_inv_def)
  next
    case (waiting i)
    with inv parts fin show ?thesis by (simp add: rx_inv_def)
  qed
qed

lemma push_value_content:
  assumes inv: "rx_inv s"
  shows "rx_content (push_value pbuf s) =
    (case rx_content s of None \<Rightarrow> Some pbuf | Some x \<Rightarrow> Some x)"
  using inv
proof (cases rule: rx_inv_cases)
  case empty
  with rx_empty_has_slot [OF inv] obtain j
    where j: "first_in_state MPOOL_FREE (TcpIp_MemPool s) = Some j" by auto
  from push_value_parts [OF inv j] j empty show ?thesis
    by (simp add: rx_content_def push_value_def)
next
  case (waiting i)
  show ?thesis
  proof (cases "first_in_state MPOOL_FREE (TcpIp_MemPool s)")
    case None
    with waiting show ?thesis by (simp add: push_value_full rx_content_def)
  next
    case (Some j)
    from push_value_parts [OF inv Some] waiting have "i \<noteq> j" by auto
    with Some waiting show ?thesis by (simp add: rx_content_def push_value_def)
  qed
qed

lemma push_value_leaked:
  assumes inv: "rx_inv s"
  shows "rx_leaked (push_value pbuf s) =
    (if rx_head s \<noteq> NullNode \<and> card (rx_owned s) < TCPIP_MEM_POOL_SIZE
     then Suc (rx_leaked s) else rx_leaked s)"
proof (cases "first_in_state MPOOL_FREE (TcpIp_MemPool s)")
  case None
  with inv have "card (rx_owned s) = TCPIP_MEM_POOL_SIZE"
    using owned_full_iff [of "TcpIp_MemPool s"] by (simp add: rx_inv_def)
  with None show ?thesis by (simp add: push_value_full)
next
  case (Some j)
  note parts = push_value_parts [OF inv Some]
  from inv have fin: "finite (rx_owned s)" and wf: "pool_wf (TcpIp_MemPool s)"
    by (simp_all add: rx_inv_def mp.finite_used)
  from Some wf have "card (rx_owned s) \<noteq> TCPIP_MEM_POOL_SIZE"
    using owned_full_iff [OF wf] mp.card_full [OF wf] by simp
  with rx_owned_card [OF inv] have "card (rx_owned s) < TCPIP_MEM_POOL_SIZE" by simp
  moreover have "0 < card (rx_owned s)" if "rx_head s \<noteq> NullNode"
    using inv that fin by (cases rule: rx_inv_cases) (auto simp: card_gt_0_iff)
  ultimately show ?thesis using parts fin by (simp add: rx_leaked_def)
qed

lemma pop_inv:
  assumes inv: "rx_inv s"
  shows "returns (pop_pbuf_from_rx_ctrl_blk s) (\<lambda>(m, s'). rx_inv s' \<and> rx_content s' = None \<and>
    rx_leaked s' = rx_leaked s \<and> m = (case rx_content s of None \<Rightarrow> None | Some x \<Rightarrow> x))"
  using inv
proof (cases rule: rx_inv_cases)
  case empty
  with inv show ?thesis
    by (auto simp: pop_empty rx_inv_def rx_content_def rx_leaked_def unat_dec16 unat_gt_0)
next
  case (waiting i)
  from inv have wf: "pool_wf (TcpIp_MemPool s)" and fin: "finite (rx_owned s)"
    by (simp_all add: rx_inv_def mp.finite_used)
  from waiting wf have i: "i < length (TcpIp_MemPool s)" by simp
  have "unat (rx_cnt s) - Suc 0 \<le> card (rx_owned s) - Suc 0"
    using inv by (simp add: rx_inv_def diff_le_mono)
  moreover have "card (rx_owned s) - Suc 0 < TCPIP_MEM_POOL_SIZE"
    using rx_owned_card [OF inv] waiting(3) by linarith
  ultimately show ?thesis
    using waiting inv wf fin i pool_wf_nth [OF wf waiting(3)]
    by (simp add: pop_waiting rx_inv_def rx_content_def rx_leaked_def owned_update unat_dec16
        pool_wf_update card_Diff_singleton)
qed

subsection \<open>The queue is a one-place mailbox\<close>

interpretation rxq: mailbox push_to_rx_ctrl_blk pop_pbuf_from_rx_ctrl_blk None rx_content rx_inv
proof
  fix s m
  assume "rx_inv s"
  then show "returns (push_to_rx_ctrl_blk m s) (\<lambda>s'. rx_inv s' \<and>
      rx_content s' = (case rx_content s of None \<Rightarrow> Some m | Some x \<Rightarrow> Some x))"
    by (simp add: push_eq push_value_inv push_value_content)
next
  fix s
  assume "rx_inv s"
  from pop_inv [OF this] show "returns (pop_pbuf_from_rx_ctrl_blk s) (\<lambda>(m, s'). rx_inv s' \<and>
      rx_content s' = None \<and> m = (case rx_content s of None \<Rightarrow> None | Some x \<Rightarrow> x))"
    by (rule returns_mono) auto
qed

subsection \<open>Reachable states of the control block\<close>

datatype rx_op = Pushed cptr | Popped cptr

inductive rx_step :: "rx_state \<Rightarrow> rx_op \<Rightarrow> rx_state \<Rightarrow> bool" where
  step_push: "push_to_rx_ctrl_blk pbuf s = Inr s' \<Longrightarrow> rx_step s (Pushed pbuf) s'"
| step_pop: "pop_pbuf_from_rx_ctrl_blk s = Inr (pbuf, s') \<Longrightarrow> rx_step s (Popped pbuf) s'"

inductive_cases rx_stepE: "rx_step s op s'"
inductive_simps rx_step_simps: "rx_step s (Pushed pbuf) s'" "rx_step s (Popped pbuf) s'"

lemma rx_step_keeps:
  "rx_inv s \<Longrightarrow> rx_step s op s' \<Longrightarrow> rx_inv s' \<and> rx_leaked s \<le> rx_leaked s'"
  using pop_inv [of s]
  by (auto elim!: rx_stepE simp: push_eq push_value_inv push_value_leaked)

interpretation rxs: monotone_measure rx_step rx_init rx_inv rx_leaked
  by unfold_locales (auto simp: rx_inv_init dest: rx_step_keeps)

subsection \<open>Properties\<close>

text \<open>C29: in every reachable state of the control block the receive queue is a one-place mailbox:
  any run of pushes and pops returns (no fault, no endless walk) with the outputs and the
  contents of the one-place box, which refuses a message while one is waiting.\<close>
theorem rx_queue_refines_mailbox:
  assumes "reach rx_step rx_init s"
  shows "returns (box_run push_to_rx_ctrl_blk pop_pbuf_from_rx_ctrl_blk ops s)
    (\<lambda>(out, s'). (out, rx_content s') = box_spec None (rx_content s) ops)"
  using rxq.run_refines [OF rxs.reach_inv [OF assms], of ops] by (rule returns_mono) auto

theorem rx_queue_refines_mailbox_witness:
  "returns (box_run push_to_rx_ctrl_blk pop_pbuf_from_rx_ctrl_blk [Put (Some 7), Get, Get] rx_init)
    (\<lambda>(out, s'). out = [Some 7, None])"
  using rx_queue_refines_mailbox [OF reach_init, of "[Put (Some 7), Get, Get]"]
  by (rule returns_mono) auto

text \<open>A burst of messages into an empty queue: the first is delivered, every later one is
  lost, and the second read finds nothing, however many were pushed.\<close>
theorem rx_burst_keeps_first_only:
  assumes "reach rx_step rx_init s" and "rx_content s = None"
  shows "returns (box_run push_to_rx_ctrl_blk pop_pbuf_from_rx_ctrl_blk
      (map Put (m # ms) @ [Get, Get]) s) (\<lambda>(out, s'). out = [m, None])"
  using rxs.reach_inv [OF assms(1)] assms(2) by (rule rxq.burst_first_only)

theorem rx_burst_keeps_first_only_witness:
  "returns (box_run push_to_rx_ctrl_blk pop_pbuf_from_rx_ctrl_blk
      (map Put [Some 1, Some 2, Some 3] @ [Get, Get]) rx_init) (\<lambda>(out, s'). out = [Some 1, None])"
  by (rule rx_burst_keeps_first_only [OF reach_init rx_init_content])

text \<open>As long as no message is pushed while one is waiting, the queue is a FIFO: outputs and
  contents are those of the unbounded first-in first-out list.\<close>
theorem rx_paced_run_is_fifo:
  assumes "reach rx_step rx_init s" and "paced (rx_content s \<noteq> None) ops"
  shows "returns (box_run push_to_rx_ctrl_blk pop_pbuf_from_rx_ctrl_blk ops s)
    (\<lambda>(out, s'). (out, opt_list (rx_content s')) = fifo_spec None (opt_list (rx_content s)) ops)"
  using rxq.paced_fifo [OF rxs.reach_inv [OF assms(1)] assms(2)] by (rule returns_mono) auto

theorem rx_paced_run_is_fifo_witness:
  "returns (box_run push_to_rx_ctrl_blk pop_pbuf_from_rx_ctrl_blk
      [Put (Some 1), Get, Put (Some 2), Get] rx_init) (\<lambda>(out, s'). out = [Some 1, Some 2])"
  using rx_paced_run_is_fifo [OF reach_init, of "[Put (Some 1), Get, Put (Some 2), Get]"]
  by (auto intro: returns_mono)

text \<open>C30: the counter and the pool in every reachable state: the counter never exceeds the five
  slots (so the 16-bit counter never wraps) nor the slots in use, no node is ever linked to a
  successor, no slot is ever marked as filled, so \<open>get_tcpip_mpool_w_data\<close> always returns
  NULL.\<close>
theorem rx_counter_and_pool_bounds:
  assumes "reach rx_step rx_init s"
  shows "unat (rx_buf_cnt (TcpIp_Rx_CtrlBlk s)) \<le> card (owned (TcpIp_MemPool s)) \<and>
    card (owned (TcpIp_MemPool s)) \<le> 5 \<and>
    (\<forall>n \<in> set (TcpIp_MemPool s). mp_next n = NullNode) \<and>
    get_tcpip_mpool_w_data (TcpIp_MemPool s) = NullNode"
proof -
  from rxs.reach_inv [OF assms] have inv: "rx_inv s" .
  then have wf: "pool_wf (TcpIp_MemPool s)" by (simp add: rx_inv_def)
  then have "first_in_state MPOOL_DATA_FILLED (TcpIp_MemPool s) = None"
    by (fastforce simp: first_in_state_None dest: pool_wf_nth)
  with inv wf rx_owned_card [OF inv] show ?thesis
    by (simp add: rx_inv_def w_data_first pool_wf_def TCPIP_MEM_POOL_SIZE_def)
qed

theorem rx_counter_and_pool_bounds_witness:
  "unat (rx_buf_cnt (TcpIp_Rx_CtrlBlk rx_init)) \<le> card (owned (TcpIp_MemPool rx_init)) \<and>
   get_tcpip_mpool_w_data (TcpIp_MemPool rx_init) = NullNode"
  using rx_counter_and_pool_bounds [OF reach_init] by blast

text \<open>A push while a message is waiting costs a slot for good. If a slot is free it is taken
  and never reached again (the leak grows by one, the queue's contents stay), if none is free
  the message is dropped and nothing changes.\<close>
theorem rx_push_on_waiting_leaks:
  assumes "reach rx_step rx_init s" and "rx_content s = Some m"
  shows "returns (push_to_rx_ctrl_blk pbuf s) (\<lambda>s'. rx_content s' = Some m \<and>
    (if card (owned (TcpIp_MemPool s)) < 5 then rx_leaked s' = Suc (rx_leaked s) else s' = s))"
proof -
  from rxs.reach_inv [OF assms(1)] have inv: "rx_inv s" .
  from assms(2) have head: "rx_head s \<noteq> NullNode" by (auto simp: rx_content_def)
  have full: "push_value pbuf s = s" if "\<not> card (owned (TcpIp_MemPool s)) < 5"
  proof (rule push_value_full)
    from inv have wf: "pool_wf (TcpIp_MemPool s)" by (simp add: rx_inv_def)
    from that rx_owned_card [OF inv] have "card (rx_owned s) = TCPIP_MEM_POOL_SIZE"
      by (simp add: TCPIP_MEM_POOL_SIZE_def)
    with wf show "first_in_state MPOOL_FREE (TcpIp_MemPool s) = None"
      using mp.card_full [OF wf] owned_full_iff [OF wf] by simp
  qed
  from inv head assms(2) full push_value_leaked [OF inv, of pbuf] show ?thesis
    by (auto simp: push_eq push_value_content TCPIP_MEM_POOL_SIZE_def)
qed

lemma rx_one_push_reach: "reach rx_step rx_init (push_value (Some 1) rx_init)"
  by (rule reach_one, rule step_push, rule push_eq, rule rx_inv_init)

theorem rx_push_on_waiting_leaks_witness:
  "returns (push_to_rx_ctrl_blk (Some 2) (push_value (Some 1) rx_init))
     (\<lambda>s'. rx_content s' = Some (Some 1))"
  using rx_push_on_waiting_leaks [OF rx_one_push_reach, of "Some 1" "Some 2"]
  by (auto simp: push_value_content [OF rx_inv_init] elim: returns_mono)

text \<open>C31: leaked slots never come back: along every run the leak only grows, and it never
  exceeds four, so that one slot is left to hold the single waiting message.\<close>
theorem rx_leak_is_permanent:
  assumes "reach rx_step rx_init s" and "reach rx_step s s'"
  shows "rx_leaked s \<le> rx_leaked s' \<and> rx_leaked s' \<le> 4"
proof -
  from rxs.reach_inv [OF assms(1)] have inv: "rx_inv s" .
  with assms(2) have inv': "rx_inv s'" by (rule rxs.reach_from_inv)
  then have "rx_leaked s' \<le> 4"
    by (cases rule: rx_inv_cases)
       (use rx_owned_card [OF inv'] in \<open>auto simp: rx_leaked_def TCPIP_MEM_POOL_SIZE_def\<close>)
  with rxs.reach_loss [OF assms(2) inv] show ?thesis by simp
qed

theorem rx_leak_is_permanent_witness:
  "rx_leaked rx_init \<le> rx_leaked (push_value (Some 1) rx_init) \<and>
   rx_leaked (push_value (Some 1) rx_init) \<le> 4"
  by (rule rx_leak_is_permanent [OF reach_init rx_one_push_reach])

text \<open>A message that arrives while none is waiting is always accepted: in every reachable
  state with an empty queue a slot is free, whatever was leaked before, and the next pop
  delivers the message and leaves the queue empty.\<close>
theorem rx_empty_queue_accepts:
  assumes "reach rx_step rx_init s" and "rx_content s = None"
  shows "returns (rbind (push_to_rx_ctrl_blk pbuf s) pop_pbuf_from_rx_ctrl_blk)
    (\<lambda>(m, s'). m = pbuf \<and> rx_content s' = None \<and> rx_leaked s' = rx_leaked s)"
proof -
  from rxs.reach_inv [OF assms(1)] have inv: "rx_inv s" .
  from inv assms(2) have head: "rx_head s = NullNode"
    by (cases rule: rx_inv_cases) (auto simp: rx_content_def)
  from pop_inv [OF push_value_inv [OF inv, of pbuf]] show ?thesis
    using inv assms(2) head
    by (auto simp: push_eq push_value_content push_value_leaked elim!: returns_mono)
qed

theorem rx_empty_queue_accepts_witness:
  "returns (rbind (push_to_rx_ctrl_blk (Some 9) rx_init) pop_pbuf_from_rx_ctrl_blk)
    (\<lambda>(m, s'). m = Some 9 \<and> rx_content s' = None \<and> rx_leaked s' = rx_leaked rx_init)"
  by (rule rx_empty_queue_accepts [OF reach_init rx_init_content])

end
