(* ===== verification/Lwip_Env.thy ===== *)
theory Lwip_Env
  imports Prelude
begin

text \<open>
  The boundary to the code that is not in the repository: the lwIP stack, the Ethernet
  driver and the operating system. Each call the sources make is an event; the calls made so
  far are the trace. What the environment does is a parameter of the model, the record
  \<open>lwip_env\<close>: its answer to a call, the contents of its memory and the callbacks it runs
  are arbitrary functions of the trace. Nothing is assumed of it here; a property that relies
  on documented behaviour names it as a hypothesis.
\<close>

subsection \<open>Data that crosses the boundary\<close>

text \<open>
  The error codes the sources name (an integer in C, \<open>cfg/arch/cc.h\<close>), and every other one.
\<close>

datatype err_t = ERR_OK | ERR_MEM | ERR_VAL | ERR_OTHER int

text \<open>The functions the sources register as callbacks.\<close>

datatype raw_fn = Fn_raw_recv | Fn_raw_error | Fn_raw_accept | Fn_raw_connected

text \<open>The members of a packet buffer the sources read, with the bytes at \<open>payload\<close>.\<close>

record pbuf =
  pb_payload :: "u8 list"
  pb_len :: u16
  pb_tot_len :: u16

text \<open>The members of a network interface that \<open>netif_initialize\<close> writes.\<close>

datatype netif_fn = Fn_netif_output | Fn_etharp_output

datatype netif_flag =
    NETIF_FLAG_BROADCAST | NETIF_FLAG_ETHARP | NETIF_FLAG_ETHERNET | NETIF_FLAG_IGMP
  | NETIF_FLAG_MLD6

record netif_fields =
  nf_linkoutput :: netif_fn
  nf_output :: netif_fn
  nf_mtu :: u16
  nf_flags :: "netif_flag set"
  nf_hwaddr :: "u8 list"
  nf_hwaddr_len :: u8

subsection \<open>Calls into the environment\<close>

datatype event =
    Tcp_arg_null cptr
  | Tcp_sent cptr "raw_fn option"
  | Tcp_recv cptr "raw_fn option"
  | Tcp_err cptr "raw_fn option"
  | Tcp_poll cptr "raw_fn option" u8
  | Tcp_accept cptr "raw_fn option"
  | Tcp_close cptr
  | Tcp_recved cptr u16
  | Tcp_setprio_min cptr
  | Tcp_write cptr "u8 list" u16 u8
  | Tcp_new
  | Tcp_new_ip_type_any
  | Tcp_bind_any cptr u16
  | Tcp_listen cptr
  | Tcp_connect cptr u32 u16 raw_fn
  | Pbuf_free cptr
  | Pbuf_alloc_raw_pool u16
  | Pbuf_take cptr "u8 list"
  | Macphy_pkt_send "u8 list"
  | Macphy_pkt_recv u16
  | Link_stats_xmit
  | Link_stats_recv
  | Netif_input cptr nat
  | Netif_fields_set nat netif_fields
  | Netif_name_set nat u8 u8
  | Lwip_init
  | Netif_add nat u32 u32 u32
  | Netif_set_status_callback nat
  | Netif_set_default nat
  | Netif_set_up nat
  | Dhcp_inform nat
  | Netif_set_link_up nat
  | Sys_check_timeouts

type_synonym trace = "event list"

text \<open>
  What lwIP runs while it handles a call: the registered functions with their arguments,
  the output function of an interface, and the initialisation function of an interface.
\<close>

datatype callback =
    Cb_recv cptr cptr err_t
  | Cb_accept cptr err_t
  | Cb_error err_t
  | Cb_connected cptr err_t
  | Cb_linkoutput nat cptr
  | Cb_status nat

subsection \<open>Requests\<close>

text \<open>
  The calls into lwIP that ask something of the network: a new connection, its address, a
  listener, a connection to a peer, data to send. The other calls register functions, release
  or acknowledge what was received, close, or set up the interface.
\<close>

fun request :: "event \<Rightarrow> bool" where
  "request (Tcp_write p bytes len flags) = True"
| "request Tcp_new = True"
| "request Tcp_new_ip_type_any = True"
| "request (Tcp_bind_any p port) = True"
| "request (Tcp_listen p) = True"
| "request (Tcp_accept p f) = True"
| "request (Tcp_connect p addr port f) = True"
| "request e = False"

subsection \<open>The environment\<close>

record lwip_env =
  ans_err :: "trace \<Rightarrow> err_t"                    \<comment> \<open>the error code the last call returns\<close>
  ans_ptr :: "trace \<Rightarrow> cptr"                     \<comment> \<open>the pointer the last call returns\<close>
  ans_frame :: "trace \<Rightarrow> u16 \<times> u8 list"           \<comment> \<open>a received frame: the returned length, the bytes written\<close>
  pcb_state_at :: "trace \<Rightarrow> nat \<Rightarrow> nat option"    \<comment> \<open>\<open>pcb->state\<close>; \<open>None\<close>: not live memory\<close>
  pbuf_at :: "trace \<Rightarrow> nat \<Rightarrow> pbuf option"        \<comment> \<open>the packet buffer; \<open>None\<close>: not live memory\<close>
  netif_input_set :: "trace \<Rightarrow> nat \<Rightarrow> bool"       \<comment> \<open>the interface's \<open>input\<close> member is not NULL\<close>
  netif_add_inits :: "trace \<Rightarrow> bool"             \<comment> \<open>\<open>netif_add\<close> runs the initialisation function\<close>
  callbacks :: "trace \<Rightarrow> callback list"          \<comment> \<open>what runs inside the last call\<close>
  env_ip4_addr :: "u16 \<Rightarrow> u16 \<Rightarrow> u16 \<Rightarrow> u16 \<Rightarrow> u32"  \<comment> \<open>lwIP's macro \<open>IP4_ADDR\<close>\<close>
  env_mac :: "u8 list"                         \<comment> \<open>\<open>EthConfigs[0].ctrlcfg.mac_addres\<close>\<close>
  env_hwaddr_size :: nat                       \<comment> \<open>\<open>sizeof(netif->hwaddr)\<close>\<close>

text \<open>Reading the environment's memory through a pointer.\<close>

definition read_pcb_state :: "lwip_env \<Rightarrow> trace \<Rightarrow> cptr \<Rightarrow> nat result" where
  "read_pcb_state env tr p =
     (case p of
        None \<Rightarrow> Inl NullDeref
      | Some a \<Rightarrow> (case pcb_state_at env tr a of None \<Rightarrow> Inl DanglingRead | Some v \<Rightarrow> Inr v))"

definition read_pbuf :: "lwip_env \<Rightarrow> trace \<Rightarrow> cptr \<Rightarrow> pbuf result" where
  "read_pbuf env tr p =
     (case p of
        None \<Rightarrow> Inl NullDeref
      | Some a \<Rightarrow> (case pbuf_at env tr a of None \<Rightarrow> Inl DanglingRead | Some b \<Rightarrow> Inr b))"

lemma read_simps [simp]:
  "read_pcb_state env tr None = Inl NullDeref"
  "pcb_state_at env tr a = Some v \<Longrightarrow> read_pcb_state env tr (Some a) = Inr v"
  "pcb_state_at env tr a = None \<Longrightarrow> read_pcb_state env tr (Some a) = Inl DanglingRead"
  "read_pbuf env tr None = Inl NullDeref"
  "pbuf_at env tr a = Some b \<Longrightarrow> read_pbuf env tr (Some a) = Inr b"
  "pbuf_at env tr a = None \<Longrightarrow> read_pbuf env tr (Some a) = Inl DanglingRead"
  by (simp_all add: read_pcb_state_def read_pbuf_def)

subsection \<open>A concrete environment\<close>

text \<open>
  An environment for examples: allocations give object 1, every call succeeds, connection 1
  is established (value 4 in lwIP), one packet buffer at address 7 holds the bytes 1, 2, 3
  until it is given back, every interface has an input function and nothing is called back.
\<close>

definition demo_pbuf :: pbuf where
  "demo_pbuf = \<lparr>pb_payload = [1, 2, 3], pb_len = 3, pb_tot_len = 3\<rparr>"

definition demo_env :: lwip_env where
  "demo_env = \<lparr>
     ans_err = (\<lambda>tr. ERR_OK),
     ans_ptr = (\<lambda>tr. Some 1),
     ans_frame = (\<lambda>tr. (3, [1, 2, 3])),
     pcb_state_at = (\<lambda>tr a. if a = 1 then Some 4 else None),
     pbuf_at = (\<lambda>tr a. if a = 7 \<and> Pbuf_free (Some 7) \<notin> set tr then Some demo_pbuf else None),
     netif_input_set = (\<lambda>tr i. True),
     netif_add_inits = (\<lambda>tr. True),
     callbacks = (\<lambda>tr. []),
     env_ip4_addr = (\<lambda>a b c d. push_bit 24 (ucast d) OR push_bit 16 (ucast c)
       OR push_bit 8 (ucast b) OR ucast a),
     env_mac = [2, 0, 0, 0, 0, 1],
     env_hwaddr_size = 6\<rparr>"

text \<open>The same, where the memory of a buffer stays readable after it was given back.\<close>

definition keep_env :: lwip_env where
  "keep_env = demo_env\<lparr>pbuf_at := (\<lambda>tr a. if a = 7 then Some demo_pbuf else None)\<rparr>"

end
