(* ===== verification/Config.thy ===== *)
theory Config
  imports Prelude
begin

text \<open>
  Types and constants of the public header \<open>api/TcpIp.h\<close>, of the generated configuration
  \<open>cfg/TcpIp_cfg.h\<close> and \<open>cfg/TcpIp_cfg.c\<close>, of \<open>cfg/lwipopts.h\<close>, and the
  connection states of \<open>src/tcpip_extensions.h\<close> with the order the code compares them by.
\<close>

subsection \<open>Return codes and API types\<close>

text \<open>
  The return codes the sources name. Their values come from \<open>Std_Types.h\<close>, which is not
  in the repository; the code only ever compares a code with \<open>E_OK\<close>.
\<close>

datatype Std_ReturnType = E_OK | E_NOT_OK | E_NOK

datatype TcpIp_StateType =
    TCPIP_STATE_ONLINE | TCPIP_STATE_ONHOLD | TCPIP_STATE_OFFLINE
  | TCPIP_STATE_STARTUP | TCPIP_STATE_SHUTDOWN | TCPIP_STATE_MAX

text \<open>
  The union of the two socket address structures: the domain and the port are shared, the
  address words of \<open>inet4\<close> are the first of those of \<open>inet6\<close>.
\<close>

record TcpIp_SockAddrType =
  sa_domain :: u16
  sa_port :: u16
  sa_addr0 :: u32
  sa_addr_rest :: "u32 list"

definition inet4_addr0 :: "TcpIp_SockAddrType \<Rightarrow> u32" where
  "inet4_addr0 a = sa_addr0 a"

definition inet6_addr :: "TcpIp_SockAddrType \<Rightarrow> u32 list" where
  "inet6_addr a = sa_addr0 a # sa_addr_rest a"

definition TCPIP_AF_INET_value :: u16 where
  "TCPIP_AF_INET_value = 0x02"

definition TCPIP_AF_INET6_value :: u16 where
  "TCPIP_AF_INET6_value = 0x1c"

definition IPv4_2_U32 :: "u16 \<Rightarrow> u16 \<Rightarrow> u16 \<Rightarrow> u16 \<Rightarrow> u32" where
  "IPv4_2_U32 a b c d =
     (push_bit 24 (ucast (a AND 0xff)) OR push_bit 16 (ucast (b AND 0xff))) OR
     (push_bit 8 (ucast (c AND 0xff)) OR ucast (d AND 0xff))"

subsection \<open>Connection states\<close>

datatype TcpIp_ConnState =
    TCPIP_CLOSED | TCPIP_BIND | TCPIP_LISTEN | TCPIP_ACCEPT | TCPIP_SYN_SENT | TCPIP_SYN_RCVD
  | TCPIP_ESTABLISHED | TCPIP_FIN_WAIT_1 | TCPIP_FIN_WAIT_2 | TCPIP_CLOSE_WAIT | TCPIP_CLOSING
  | TCPIP_LAST_ACK | TCPIP_TIME_WAIT

primrec conn_val :: "TcpIp_ConnState \<Rightarrow> nat" where
  "conn_val TCPIP_CLOSED = 0"
| "conn_val TCPIP_BIND = 1"
| "conn_val TCPIP_LISTEN = 2"
| "conn_val TCPIP_ACCEPT = 3"
| "conn_val TCPIP_SYN_SENT = 4"
| "conn_val TCPIP_SYN_RCVD = 5"
| "conn_val TCPIP_ESTABLISHED = 6"
| "conn_val TCPIP_FIN_WAIT_1 = 7"
| "conn_val TCPIP_FIN_WAIT_2 = 8"
| "conn_val TCPIP_CLOSE_WAIT = 9"
| "conn_val TCPIP_CLOSING = 10"
| "conn_val TCPIP_LAST_ACK = 11"
| "conn_val TCPIP_TIME_WAIT = 12"

lemma conn_val_inj: "conn_val a = conn_val b \<Longrightarrow> a = b"
  by (cases a; cases b) simp_all

text \<open>C compares the values of an enumeration; this is the order of its constants.\<close>

instantiation TcpIp_ConnState :: linorder
begin

definition less_eq_TcpIp_ConnState :: "TcpIp_ConnState \<Rightarrow> TcpIp_ConnState \<Rightarrow> bool" where
  "less_eq_TcpIp_ConnState a b \<longleftrightarrow> conn_val a \<le> conn_val b"

definition less_TcpIp_ConnState :: "TcpIp_ConnState \<Rightarrow> TcpIp_ConnState \<Rightarrow> bool" where
  "less_TcpIp_ConnState a b \<longleftrightarrow> conn_val a < conn_val b"

instance
  by intro_classes
    (auto simp: less_eq_TcpIp_ConnState_def less_TcpIp_ConnState_def dest: conn_val_inj)

end

lemmas conn_order = less_eq_TcpIp_ConnState_def less_TcpIp_ConnState_def

subsection \<open>The generated configuration\<close>

datatype TcpIpDomainType = TCPIP_AF_INET | TCPIP_AF_INET6 | TCPIP_MAX_DOMAIN_TYPE
datatype TcpIpAddressType = TCPIP_UNICAST | TCPIP_ANYCAST | TCPIP_MULTCAST | TCPIP_MAX_ADDR_TYPE
datatype TcpIpAssignmentMethod =
    TCPIP_STATIC | TCPIP_DHCP | TCPIP_LINKLOCAL | TCPIP_IPV6_ROUTER | TCPIP_LINKLOCAL_DOIP
  | TCPIP_MAX_ASSN_METHOD
datatype TcpIpAssignmentTrigger = TCPIP_MANUAL | TCPIP_AUTOMATIC | TCPIP_MAX_ASSN_TRIGGER
datatype TcpIpAssignmentLifetime = TCPIP_FORGET | TCPIP_STORE | TCPIP_MAX_ASSN_LIFETIME

record TcpIpGeneralCfgType =
  mainfn_period_ms :: u16
  tcpip_buffer_mem :: u32

record TcpIpLocalAddr =
  addr_id :: u16
  domain_type :: TcpIpDomainType
  addr_type :: TcpIpAddressType
  addr_assn_life :: TcpIpAssignmentLifetime
  addr_assn_method :: TcpIpAssignmentMethod
  addr_assn_prio :: u8
  addr_assn_trig :: TcpIpAssignmentTrigger
  ip_addr :: "u16 list"
  ip_netmask :: "u16 list"
  ip_dfroutr :: "u16 list"

record TcpIp_ConfigType =
  gen :: TcpIpGeneralCfgType
  local_addr :: "TcpIpLocalAddr list"

definition MAX_TCPIP_LOCAL_ADDRESS :: nat where
  "MAX_TCPIP_LOCAL_ADDRESS = 1"

definition TcpIpGeneralConfigs :: TcpIpGeneralCfgType where
  "TcpIpGeneralConfigs = \<lparr>mainfn_period_ms = 100, tcpip_buffer_mem = 1500\<rparr>"

definition TcpIpLocalAddrConfigs :: "TcpIpLocalAddr list" where
  "TcpIpLocalAddrConfigs =
     [\<lparr>addr_id = 0,
       domain_type = TCPIP_AF_INET,
       addr_type = TCPIP_UNICAST,
       addr_assn_life = TCPIP_FORGET,
       addr_assn_method = TCPIP_STATIC,
       addr_assn_prio = 1,
       addr_assn_trig = TCPIP_MANUAL,
       ip_addr = [192, 168, 3, 100, 0, 0, 0, 0],
       ip_netmask = [255, 255, 255, 0, 0, 0, 0, 0],
       ip_dfroutr = [192, 168, 3, 1, 0, 0, 0, 0]\<rparr>]"

definition TcpIp_Config :: TcpIp_ConfigType where
  "TcpIp_Config = \<lparr>gen = TcpIpGeneralConfigs, local_addr = TcpIpLocalAddrConfigs\<rparr>"

text \<open>The four words \<open>lwip_int_init\<close> reads of an address, as a host-order number.\<close>

definition cfg_u32 :: "u16 list \<Rightarrow> u32" where
  "cfg_u32 ws = IPv4_2_U32 (ws ! 0) (ws ! 1) (ws ! 2) (ws ! 3)"

subsection \<open>The address macro\<close>

text \<open>Which argument a bit of the address comes from.\<close>

lemma ff_mask16: "(0xff :: u16) = mask 8"
  by (simp add: mask_eq_exp_minus_1)

lemma ff_mask32: "(0xff :: u32) = mask 8"
  by (simp add: mask_eq_exp_minus_1)

lemma bit_octet: "bit (ucast ((x :: u16) AND 0xff) :: u32) n \<longleftrightarrow> n < 8 \<and> bit x n"
  by (auto simp: ff_mask16 bit_simps)

lemma bit_IPv4:
  "bit (IPv4_2_U32 a b c d) n \<longleftrightarrow>
     (24 \<le> n \<and> n < 32 \<and> bit a (n - 24)) \<or> (16 \<le> n \<and> n < 24 \<and> bit b (n - 16)) \<or>
     (8 \<le> n \<and> n < 16 \<and> bit c (n - 8)) \<or> (n < 8 \<and> bit d n)"
  unfolding IPv4_2_U32_def by (auto simp: bit_octet bit_or_iff bit_push_bit_iff)

lemmas octet_bits =
  bit_octet bit_IPv4 bit_drop_bit_eq bit_and_iff ff_mask32 bit_mask_iff

subsection \<open>Properties\<close>

text \<open>The address macro \<open>IPv4_2_U32\<close> packs the low bytes of its four arguments, most
  significant first, and each of them can be read back by shifting and masking.\<close>
theorem IPv4_2_U32_octets:
  "drop_bit 24 (IPv4_2_U32 a b c d) = ucast (a AND 0xff) \<and>
   drop_bit 16 (IPv4_2_U32 a b c d) AND 0xff = ucast (b AND 0xff) \<and>
   drop_bit 8 (IPv4_2_U32 a b c d) AND 0xff = ucast (c AND 0xff) \<and>
   IPv4_2_U32 a b c d AND 0xff = ucast (d AND 0xff)"
  by (intro conjI; rule bit_word_eqI; auto simp: octet_bits)

text \<open>The generated address configuration is consistent: every word of an address is a byte,
  the netmask is a run of ones followed by zeros, and the default router is a different host of
  the same subnet.\<close>
lemma local_addr_config_consistent:
  "length TcpIpLocalAddrConfigs = MAX_TCPIP_LOCAL_ADDRESS \<and>
   list_all (\<lambda>c. list_all (\<lambda>w. w \<le> 255) (ip_addr c @ ip_netmask c @ ip_dfroutr c) \<and>
     cfg_u32 (ip_netmask c) = NOT (mask 8) \<and>
     cfg_u32 (ip_addr c) AND cfg_u32 (ip_netmask c) = cfg_u32 (ip_dfroutr c) AND cfg_u32 (ip_netmask c) \<and>
     cfg_u32 (ip_addr c) \<noteq> cfg_u32 (ip_dfroutr c)) TcpIpLocalAddrConfigs"
  by (simp add: TcpIpLocalAddrConfigs_def MAX_TCPIP_LOCAL_ADDRESS_def cfg_u32_def IPv4_2_U32_def
      mask_eq_exp_minus_1)

end
