(* ===== verification/Tcp_Core.thy ===== *)
theory Tcp_Core
  imports Rx_Queue Lwip_Env Config
begin

text \<open>
  \<open>src/TcpIp.c\<close>: the connection and data transfer functions over the one raw connection
  the module keeps, its callbacks, and the AUTOSAR entry points.
\<close>

subsection \<open>State\<close>

text \<open>
  The static variables of the module (with the buffer \<open>Lwip_EthPkt\<close> of
  \<open>src/lwip_int.c\<close>), and the trace of the calls made into the environment.
\<close>

record tcpip_state =
  rx :: rx_state
  tcpip_raw_pcb :: cptr
  Lwip_EthPkt :: "u8 list"
  tr :: trace

definition ETHERNET_MTU :: u16 where
  "ETHERNET_MTU = 1500"

definition tcpip_init :: tcpip_state where
  "tcpip_init = \<lparr>rx = rx_init, tcpip_raw_pcb = None,
     Lwip_EthPkt = replicate (unat ETHERNET_MTU) 0, tr = []\<rparr>"

text \<open>A call without a result, a sequence of such calls, calls that answer.\<close>

definition emit :: "event \<Rightarrow> tcpip_state \<Rightarrow> tcpip_state" where
  "emit e s = s\<lparr>tr := tr s @ [e]\<rparr>"

definition emits :: "event list \<Rightarrow> tcpip_state \<Rightarrow> tcpip_state" where
  "emits es s = s\<lparr>tr := tr s @ es\<rparr>"

definition call_err :: "lwip_env \<Rightarrow> event \<Rightarrow> tcpip_state \<Rightarrow> err_t \<times> tcpip_state" where
  "call_err env e s = (ans_err env (tr s @ [e]), emit e s)"

definition call_ptr :: "lwip_env \<Rightarrow> event \<Rightarrow> tcpip_state \<Rightarrow> cptr \<times> tcpip_state" where
  "call_ptr env e s = (ans_ptr env (tr s @ [e]), emit e s)"

lemma emit_simps [simp]:
  "tr (emit e s) = tr s @ [e]" "rx (emit e s) = rx s"
  "tcpip_raw_pcb (emit e s) = tcpip_raw_pcb s" "Lwip_EthPkt (emit e s) = Lwip_EthPkt s"
  "tr (emits es s) = tr s @ es" "rx (emits es s) = rx s"
  "tcpip_raw_pcb (emits es s) = tcpip_raw_pcb s" "Lwip_EthPkt (emits es s) = Lwip_EthPkt s"
  by (simp_all add: emit_def emits_def)

subsection \<open>Sending and receiving\<close>

text \<open>
  \<open>TcpIp_send\<close>. The data argument is NULL or the bytes of the caller's buffer, of which
  the write with the copy flag reads \<open>len\<close>. In the error branches the log call reads
  \<open>tcpip_raw_pcb->state\<close>.
\<close>

definition TcpIp_send :: "lwip_env \<Rightarrow> u8 list option \<Rightarrow> u16 \<Rightarrow> tcpip_state \<Rightarrow> (int \<times> tcpip_state) result"
  where
  "TcpIp_send env pdata len s =
     (case pdata of
        None \<Rightarrow> Inr (-1, s)
      | Some bytes \<Rightarrow>
          if length bytes < unat len then Inl OutOfBounds
          else
          let (wr_err, s) = call_err env (Tcp_write (tcpip_raw_pcb s) bytes len 1) s
          in if wr_err = ERR_OK then Inr (0, s)
             else if wr_err = ERR_MEM then
               rbind (read_pcb_state env (tr s) (tcpip_raw_pcb s)) (\<lambda>_. Inr (-2, s))
             else
               rbind (read_pcb_state env (tr s) (tcpip_raw_pcb s)) (\<lambda>_. Inr (-3, s)))"

text \<open>The byte loop of \<open>TcpIp_recv\<close>, from index \<open>i\<close>.\<close>

function copy_loop :: "u8 list \<Rightarrow> nat \<Rightarrow> nat \<Rightarrow> u8 list \<Rightarrow> u8 list result" where
  "copy_loop payload len i pdata =
     (if i < len then
        if i < length payload \<and> i < length pdata
        then copy_loop payload len (i + 1) (pdata[i := payload ! i])
        else Inl OutOfBounds
      else Inr pdata)"
  by pat_completeness auto
termination
  by (relation "measure (\<lambda>(payload, len, i, pdata). len - i)") auto

declare copy_loop.simps [simp del]

text \<open>\<open>TcpIp_recv\<close>: the result, the caller's buffer afterwards, the state.\<close>

definition TcpIp_recv :: "lwip_env \<Rightarrow> u8 list option \<Rightarrow> tcpip_state
    \<Rightarrow> (int \<times> u8 list option \<times> tcpip_state) result" where
  "TcpIp_recv env pdata s =
     (case pdata of
        None \<Rightarrow> Inr (0, None, s)
      | Some dst \<Rightarrow>
          rbind (pop_pbuf_from_rx_ctrl_blk (rx s)) (\<lambda>(pbuf, r).
          let s = s\<lparr>rx := r\<rparr>
          in if pbuf \<noteq> None then
               rbind (read_pbuf env (tr s) pbuf) (\<lambda>b.
               let len = unat (pb_len b)
               in rbind (copy_loop (pb_payload b) len 0 dst) (\<lambda>dst.
                  Inr (int len, Some dst, s)))
             else Inr (0, Some dst, s)))"

definition TcpIp_getConnState :: "lwip_env \<Rightarrow> u16 \<Rightarrow> tcpip_state \<Rightarrow> nat result" where
  "TcpIp_getConnState env skt_id s = read_pcb_state env (tr s) (tcpip_raw_pcb s)"

subsection \<open>Callbacks\<close>

definition tcpip_raw_error :: "err_t \<Rightarrow> tcpip_state \<Rightarrow> tcpip_state" where
  "tcpip_raw_error err s = s"

definition tcpip_raw_close :: "cptr \<Rightarrow> tcpip_state \<Rightarrow> tcpip_state" where
  "tcpip_raw_close tpcb s =
     emits [Tcp_arg_null tpcb, Tcp_sent tpcb None, Tcp_recv tpcb None, Tcp_err tpcb None,
            Tcp_poll tpcb None 0, Tcp_close tpcb] s"

definition tcpip_raw_recv :: "lwip_env \<Rightarrow> cptr \<Rightarrow> cptr \<Rightarrow> err_t \<Rightarrow> tcpip_state
    \<Rightarrow> (err_t \<times> tcpip_state) result" where
  "tcpip_raw_recv env tpcb p err s =
     rbind
       (if err = ERR_OK \<and> p \<noteq> None then
          rbind (read_pbuf env (tr s) p) (\<lambda>b.
          let s = emit (Tcp_recved tpcb (pb_tot_len b)) s
          in rbind (push_to_rx_ctrl_blk p (rx s)) (\<lambda>r.
             Inr (emit (Pbuf_free p) (s\<lparr>rx := r\<rparr>))))
        else Inr (emit (Pbuf_free p) s))
       (\<lambda>s. let s = (if err \<noteq> ERR_OK \<or> (err = ERR_OK \<and> p = None) then tcpip_raw_close tpcb s else s)
            in Inr (ERR_OK, s))"

definition tcpip_raw_accept :: "cptr \<Rightarrow> err_t \<Rightarrow> tcpip_state \<Rightarrow> err_t \<times> tcpip_state" where
  "tcpip_raw_accept newpcb err s =
     (let s = s\<lparr>tcpip_raw_pcb := newpcb\<rparr>
      in if err \<noteq> ERR_OK \<or> newpcb = None then (ERR_VAL, s)
         else (ERR_OK,
           emits [Tcp_setprio_min newpcb, Tcp_arg_null newpcb, Tcp_recv newpcb (Some Fn_raw_recv),
                  Tcp_err newpcb (Some Fn_raw_error), Tcp_poll newpcb None 0,
                  Tcp_sent newpcb None] s))"

definition tcpip_raw_connected :: "cptr \<Rightarrow> err_t \<Rightarrow> tcpip_state \<Rightarrow> err_t \<times> tcpip_state" where
  "tcpip_raw_connected tpcb err s = (ERR_OK, s)"

subsection \<open>Connection control\<close>

definition TcpIp_Close :: "u16 \<Rightarrow> bool \<Rightarrow> tcpip_state \<Rightarrow> Std_ReturnType \<times> tcpip_state" where
  "TcpIp_Close SocketId Abort s =
     (if tcpip_raw_pcb s = None then (E_NOT_OK, s)
      else (E_OK, tcpip_raw_close (tcpip_raw_pcb s) s))"

definition TcpIp_Bind :: "lwip_env \<Rightarrow> u16 \<Rightarrow> u8 \<Rightarrow> u16 option \<Rightarrow> tcpip_state
    \<Rightarrow> (Std_ReturnType \<times> tcpip_state) result" where
  "TcpIp_Bind env SocketId LocalAddrId PortPtr s =
     (if PortPtr = None \<and> tcpip_raw_pcb s \<noteq> None then Inr (E_NOT_OK, s)
      else
        let (pcb, s) = call_ptr env Tcp_new_ip_type_any s;
            s = s\<lparr>tcpip_raw_pcb := pcb\<rparr>
        in if pcb \<noteq> None then
             (case PortPtr of
                None \<Rightarrow> Inl NullDeref
              | Some port \<Rightarrow>
                  let (err, s) = call_err env (Tcp_bind_any pcb port) s
                  in Inr (if err \<noteq> ERR_OK then E_NOT_OK else E_OK, s))
           else Inr (E_OK, s))"

definition TcpIp_TcpListen :: "lwip_env \<Rightarrow> u16 \<Rightarrow> u16 \<Rightarrow> tcpip_state
    \<Rightarrow> (Std_ReturnType \<times> tcpip_state) result" where
  "TcpIp_TcpListen env SocketId MaxChannels s =
     (if tcpip_raw_pcb s = None then Inr (E_NOT_OK, s)
      else
        rbind (read_pcb_state env (tr s) (tcpip_raw_pcb s)) (\<lambda>state.
        if state < conn_val TCPIP_LISTEN then
          let (pcb, s) = call_ptr env (Tcp_listen (tcpip_raw_pcb s)) s;
              s = s\<lparr>tcpip_raw_pcb := pcb\<rparr>;
              s = emit (Tcp_accept pcb (Some Fn_raw_accept)) s
          in Inr (E_OK, s)
        else Inr (E_NOT_OK, s)))"

definition TcpIp_TcpConnect :: "lwip_env \<Rightarrow> u16 \<Rightarrow> TcpIp_SockAddrType option \<Rightarrow> tcpip_state
    \<Rightarrow> (Std_ReturnType \<times> tcpip_state) result" where
  "TcpIp_TcpConnect env SocketId RemoteAddrPtr s =
     (let (newpcb, s) = call_ptr env Tcp_new s
      in if newpcb = None then Inr (E_NOT_OK, s)
         else
           let s = emits [Tcp_arg_null newpcb, Tcp_recv newpcb (Some Fn_raw_recv),
                          Tcp_err newpcb (Some Fn_raw_error), Tcp_poll newpcb None 0,
                          Tcp_sent newpcb None] s
           in (case RemoteAddrPtr of
                 None \<Rightarrow> Inl NullDeref
               | Some remote \<Rightarrow>
                   let (err, s) = call_err env (Tcp_connect newpcb (inet4_addr0 remote)
                                    (sa_port remote) Fn_raw_connected) s
                   in Inr (if err \<noteq> ERR_OK then E_NOT_OK else E_OK, s)))"

subsection \<open>Entry points without a body\<close>

definition TcpIp_TcpReceived :: "u16 \<Rightarrow> u32 \<Rightarrow> tcpip_state \<Rightarrow> Std_ReturnType \<times> tcpip_state" where
  "TcpIp_TcpReceived SocketId Length s = (E_OK, s)"

definition TcpIp_RequestComMode :: "u8 \<Rightarrow> TcpIp_StateType \<Rightarrow> tcpip_state
    \<Rightarrow> Std_ReturnType \<times> tcpip_state" where
  "TcpIp_RequestComMode CtrlIdx State s = (E_OK, s)"

definition TcpIp_TcpTransmit :: "u16 \<Rightarrow> u8 list option \<Rightarrow> u32 \<Rightarrow> bool \<Rightarrow> tcpip_state
    \<Rightarrow> Std_ReturnType \<times> tcpip_state" where
  "TcpIp_TcpTransmit SocketId DataPtr AvailableLength ForceRetrieve s = (E_OK, s)"

definition TcpIp_UdpTransmit :: "u16 \<Rightarrow> u8 list option \<Rightarrow> TcpIp_SockAddrType option \<Rightarrow> u16
    \<Rightarrow> tcpip_state \<Rightarrow> Std_ReturnType \<times> tcpip_state" where
  "TcpIp_UdpTransmit SocketId DataPtr RemoteAddrPtr TotalLength s = (E_OK, s)"

definition TcpIp_RxIndication :: "u8 \<Rightarrow> u16 \<Rightarrow> bool \<Rightarrow> u8 list option \<Rightarrow> u8 list option \<Rightarrow> u16
    \<Rightarrow> tcpip_state \<Rightarrow> tcpip_state" where
  "TcpIp_RxIndication CtrlIdx FrameType IsBroadcast PhysAddrPtr DataPtr LenByte s = s"

subsection \<open>The copy loop\<close>

text \<open>The byte loop against \<open>take\<close> and \<open>drop\<close>, and its overflow.\<close>

lemma copy_loop_eq:
  "i \<le> len \<Longrightarrow> len \<le> length payload \<Longrightarrow> len \<le> length dst \<Longrightarrow>
     copy_loop payload len i dst = Inr (take i dst @ take (len - i) (drop i payload) @ drop len dst)"
proof (induction payload len i dst rule: copy_loop.induct)
  case (1 payload len i dst)
  show ?case
  proof (cases "i < len")
    case True
    with "1.prems" have "copy_loop payload len i dst =
        copy_loop payload len (i + 1) (dst[i := payload ! i])"
      by (simp add: copy_loop.simps [of payload len i dst])
    also have "\<dots> = Inr (take (i + 1) (dst[i := payload ! i]) @
        take (len - (i + 1)) (drop (i + 1) payload) @ drop len (dst[i := payload ! i]))"
      using True "1.prems" by (intro "1.IH") auto
    also have "take (i + 1) (dst[i := payload ! i]) = take i dst @ [payload ! i]"
      using True "1.prems" by (simp add: take_Suc_conv_app_nth)
    also have "drop len (dst[i := payload ! i]) = drop len dst"
      using True by simp
    also have "(take i dst @ [payload ! i]) @ take (len - (i + 1)) (drop (i + 1) payload) @ drop len dst
        = take i dst @ take (len - i) (drop i payload) @ drop len dst"
      using True "1.prems" by (simp add: Cons_nth_drop_Suc [symmetric] take_Cons')
    finally show ?thesis .
  next
    case False
    with "1.prems" have "i = len" by simp
    then show ?thesis by (simp add: copy_loop.simps [of payload len len dst])
  qed
qed

lemma copy_loop_overflow:
  "length dst < len \<or> length payload < len \<Longrightarrow> i \<le> length dst \<Longrightarrow> i \<le> length payload \<Longrightarrow>
     copy_loop payload len i dst = Inl OutOfBounds"
proof (induction payload len i dst rule: copy_loop.induct)
  case (1 payload len i dst)
  then show ?case by (subst copy_loop.simps) auto
qed

subsection \<open>The invariant of the module\<close>

text \<open>Every close of a connection directly follows the removal of its callbacks.\<close>

definition detach :: "cptr \<Rightarrow> event list" where
  "detach p = [Tcp_arg_null p, Tcp_sent p None, Tcp_recv p None, Tcp_err p None, Tcp_poll p None 0]"

definition closes_clean :: "trace \<Rightarrow> bool" where
  "closes_clean t \<longleftrightarrow>
     (\<forall>i p. i < length t \<and> t ! i = Tcp_close p \<longrightarrow> 5 \<le> i \<and> take 5 (drop (i - 5) t) = detach p)"

definition no_close :: "event list \<Rightarrow> bool" where
  "no_close es \<longleftrightarrow> (\<forall>p. Tcp_close p \<notin> set es)"

lemma no_close_simps [simp]:
  "no_close []" "no_close (e # es) \<longleftrightarrow> (\<forall>p. e \<noteq> Tcp_close p) \<and> no_close es"
  "no_close (es @ fs) \<longleftrightarrow> no_close es \<and> no_close fs"
  by (auto simp: no_close_def)

lemma window_append: "5 \<le> i \<Longrightarrow> i \<le> length t \<Longrightarrow> take 5 (drop (i - 5) (t @ es)) = take 5 (drop (i - 5) t)"
  by simp

lemma closes_clean_prefix: "closes_clean (t @ es) \<Longrightarrow> closes_clean t"
  unfolding closes_clean_def by (metis window_append nth_append length_append
      less_imp_le trans_less_add1)

lemma closes_clean_append [simp]: "no_close es \<Longrightarrow> closes_clean (t @ es) \<longleftrightarrow> closes_clean t"
proof
  assume es: "no_close es" and t: "closes_clean t"
  show "closes_clean (t @ es)"
    unfolding closes_clean_def
  proof (intro allI impI)
    fix i p
    assume i: "i < length (t @ es) \<and> (t @ es) ! i = Tcp_close p"
    have "i < length t"
    proof (rule ccontr)
      assume out: "\<not> i < length t"
      with i have "es ! (i - length t) \<in> set es" by (intro nth_mem) auto
      with out i es show False by (auto simp: no_close_def nth_append)
    qed
    with i t show "5 \<le> i \<and> take 5 (drop (i - 5) (t @ es)) = detach p"
      by (auto simp: closes_clean_def nth_append)
  qed
qed (rule closes_clean_prefix)

lemma closes_clean_close:
  assumes "closes_clean t"
  shows "closes_clean (t @ detach p @ [Tcp_close p])"
  unfolding closes_clean_def
proof (intro allI impI)
  fix i q
  assume i: "i < length (t @ detach p @ [Tcp_close p]) \<and> (t @ detach p @ [Tcp_close p]) ! i = Tcp_close q"
  show "5 \<le> i \<and> take 5 (drop (i - 5) (t @ detach p @ [Tcp_close p])) = detach q"
  proof (cases "i < length (t @ detach p)")
    case True
    have "closes_clean (t @ detach p)" using assms by (simp add: detach_def)
    with True i show ?thesis
      unfolding closes_clean_def
      by (metis append.assoc less_imp_le nth_append window_append)
  next
    case False
    with i have "i = length t + 5" by (simp add: detach_def)
    with i show ?thesis by (simp add: detach_def nth_append)
  qed
qed

definition core_inv :: "tcpip_state \<Rightarrow> bool" where
  "core_inv s \<longleftrightarrow>
     rx_inv (rx s) \<and> rx_content (rx s) \<noteq> Some None \<and>
     length (Lwip_EthPkt s) = unat ETHERNET_MTU \<and> closes_clean (tr s)"

named_theorems core_keeps \<open>each operation of the module keeps the invariant\<close>

lemma core_inv_init: "core_inv tcpip_init"
  by (simp add: core_inv_def tcpip_init_def rx_inv_init closes_clean_def)

lemma core_inv_emits [simp]:
  "no_close es \<Longrightarrow> core_inv (emits es s) = core_inv s"
  "(\<And>p. e \<noteq> Tcp_close p) \<Longrightarrow> core_inv (emit e s) = core_inv s"
  by (simp_all add: core_inv_def)

lemma core_inv_frame [simp]:
  "core_inv (s\<lparr>tcpip_raw_pcb := p\<rparr>) = core_inv s"
  "core_inv s \<Longrightarrow> rx_inv r \<Longrightarrow> rx_content r \<noteq> Some None \<Longrightarrow> core_inv (s\<lparr>rx := r\<rparr>)"
  by (simp_all add: core_inv_def)

lemma core_inv_rx: "core_inv s \<Longrightarrow> rx_inv (rx s)" "core_inv s \<Longrightarrow> rx_content (rx s) \<noteq> Some None"
  by (auto simp: core_inv_def)

lemma push_value_real:
  "rx_inv s \<Longrightarrow> rx_content s \<noteq> Some None \<Longrightarrow> rx_content (push_value (Some a) s) \<noteq> Some None"
  by (auto simp: push_value_content split: option.splits)

lemma raw_close_keeps [core_keeps]: "core_inv s \<Longrightarrow> core_inv (tcpip_raw_close p s)"
  using closes_clean_close [of "tr s" p]
  by (simp add: core_inv_def tcpip_raw_close_def detach_def)

lemma raw_recv_keeps [core_keeps]:
  "core_inv s \<Longrightarrow> ensures (tcpip_raw_recv env tpcb p err s) (\<lambda>(e, s'). core_inv s')"
  by (auto simp: tcpip_raw_recv_def Let_def push_eq core_inv_rx push_value_inv push_value_real
      raw_close_keeps intro!: ensuresI)

lemma raw_accept_keeps [core_keeps]: "core_inv s \<Longrightarrow> core_inv (snd (tcpip_raw_accept newpcb err s))"
  by (simp add: tcpip_raw_accept_def Let_def)

lemma Close_keeps [core_keeps]: "core_inv s \<Longrightarrow> core_inv (snd (TcpIp_Close i a s))"
  by (simp add: TcpIp_Close_def raw_close_keeps)

lemma send_keeps [core_keeps]:
  "core_inv s \<Longrightarrow> ensures (TcpIp_send env pdata len s) (\<lambda>(r, s'). core_inv s')"
  by (auto simp: TcpIp_send_def call_err_def Let_def split: option.splits intro!: ensuresI)

lemma recv_keeps [core_keeps]:
  assumes "core_inv s"
  shows "ensures (TcpIp_recv env pdata s) (\<lambda>(r, d, s'). core_inv s')"
proof -
  from pop_inv [OF core_inv_rx(1) [OF assms]] obtain m r
    where "pop_pbuf_from_rx_ctrl_blk (rx s) = Inr (m, r)" "rx_inv r" "rx_content r = None"
    by (auto simp: returns_iff)
  with assms show ?thesis
    by (auto simp: TcpIp_recv_def Let_def split: option.splits intro!: ensuresI)
qed

lemma Bind_keeps [core_keeps]:
  "core_inv s \<Longrightarrow> ensures (TcpIp_Bind env i a port s) (\<lambda>(r, s'). core_inv s')"
  by (auto simp: TcpIp_Bind_def call_ptr_def call_err_def Let_def split: option.splits
      intro!: ensuresI)

lemma Listen_keeps [core_keeps]:
  "core_inv s \<Longrightarrow> ensures (TcpIp_TcpListen env i m s) (\<lambda>(r, s'). core_inv s')"
  by (auto simp: TcpIp_TcpListen_def call_ptr_def Let_def intro!: ensuresI split: if_splits)

lemma Connect_keeps [core_keeps]:
  "core_inv s \<Longrightarrow> ensures (TcpIp_TcpConnect env i remote s) (\<lambda>(r, s'). core_inv s')"
  by (auto simp: TcpIp_TcpConnect_def call_ptr_def call_err_def Let_def split: option.splits
      intro!: ensuresI)

subsection \<open>What reception and delivery compute\<close>

text \<open>The calls \<open>tcpip_raw_recv\<close> makes for a good packet.\<close>

definition recv_events :: "cptr \<Rightarrow> nat \<Rightarrow> pbuf \<Rightarrow> event list" where
  "recv_events tpcb a b = [Tcp_recved tpcb (pb_tot_len b), Pbuf_free (Some a)]"

lemma raw_recv_ok:
  assumes "rx_inv (rx s)" and "pbuf_at env (tr s) a = Some b"
  shows "tcpip_raw_recv env tpcb (Some a) ERR_OK s =
    Inr (ERR_OK, s\<lparr>rx := push_value (Some a) (rx s), tr := tr s @ recv_events tpcb a b\<rparr>)"
  using assms by (simp add: tcpip_raw_recv_def Let_def push_eq recv_events_def emit_def)

lemma raw_recv_bad:
  "err \<noteq> ERR_OK \<or> p = None \<Longrightarrow>
     tcpip_raw_recv env tpcb p err s = Inr (ERR_OK, tcpip_raw_close tpcb (emit (Pbuf_free p) s))"
  by (auto simp: tcpip_raw_recv_def)

text \<open>What a receive gives for a packet that waits at the address \<open>a\<close>.\<close>

definition read_packet :: "lwip_env \<Rightarrow> trace \<Rightarrow> nat \<Rightarrow> u8 list \<Rightarrow> (int \<times> u8 list) result" where
  "read_packet env t a dst =
     (case pbuf_at env t a of
        None \<Rightarrow> Inl DanglingRead
      | Some b \<Rightarrow>
          let len = unat (pb_len b)
          in if len \<le> length (pb_payload b) \<and> len \<le> length dst
             then Inr (int len, take len (pb_payload b) @ drop len dst)
             else Inl OutOfBounds)"

lemma recv_reads:
  assumes "rx_inv (rx s)" and "rx_content (rx s) = Some (Some a)"
  shows "\<exists>r. rx_inv r \<and> rx_content r = None \<and> TcpIp_recv env (Some dst) s =
    rbind (read_packet env (tr s) a dst) (\<lambda>(n, d). Inr (n, Some d, s\<lparr>rx := r\<rparr>))"
proof -
  from pop_inv [OF assms(1)] assms(2) obtain r
    where r: "pop_pbuf_from_rx_ctrl_blk (rx s) = Inr (Some a, r)" "rx_content r = None" "rx_inv r"
    by (auto simp: returns_iff)
  show ?thesis
  proof (cases "pbuf_at env (tr s) a")
    case None
    with r show ?thesis by (intro exI [of _ r]) (simp add: TcpIp_recv_def read_packet_def)
  next
    case (Some b)
    with r copy_loop_eq [of 0 "unat (pb_len b)" "pb_payload b" dst]
      copy_loop_overflow [of dst "unat (pb_len b)" "pb_payload b" 0] show ?thesis
      by (intro exI [of _ r]) (auto simp: TcpIp_recv_def read_packet_def Let_def not_le)
  qed
qed

lemma recv_waiting:
  assumes "rx_inv (rx s)" and "rx_content (rx s) = Some (Some a)"
    and "pbuf_at env (tr s) a = Some b" and "unat (pb_len b) \<le> length (pb_payload b)"
  shows "if unat (pb_len b) \<le> length dst
    then returns (TcpIp_recv env (Some dst) s) (\<lambda>(n, d, s'). n = int (unat (pb_len b)) \<and>
      d = Some (take (unat (pb_len b)) (pb_payload b) @ drop (unat (pb_len b)) dst) \<and>
      rx_content (rx s') = None \<and> tr s' = tr s)
    else TcpIp_recv env (Some dst) s = Inl OutOfBounds"
  using recv_reads [OF assms(1,2), of env dst] assms(3,4) by (auto simp: read_packet_def Let_def)

lemma recv_dangling:
  assumes "rx_inv (rx s)" and "rx_content (rx s) = Some (Some a)" and "pbuf_at env (tr s) a = None"
  shows "TcpIp_recv env (Some dst) s = Inl DanglingRead"
  using recv_reads [OF assms(1,2), of env dst] assms(3) by (auto simp: read_packet_def)

text \<open>The faults the transfer and control functions can have.\<close>

lemma copy_loop_faults: "copy_loop payload len i dst = Inl f \<Longrightarrow> f = OutOfBounds"
proof (induction payload len i dst rule: copy_loop.induct)
  case (1 payload len i dst)
  from "1.prems" show ?case
    by (subst (asm) copy_loop.simps) (auto split: if_splits dest: "1.IH")
qed

lemma read_faults:
  "read_pbuf env t (Some a) = Inl f \<Longrightarrow> f = DanglingRead"
  "read_pcb_state env t (Some a) = Inl f \<Longrightarrow> f = DanglingRead"
  "read_pcb_state env t p = Inl f \<Longrightarrow> f = NullDeref \<or> f = DanglingRead"
  by (auto simp: read_pbuf_def read_pcb_state_def split: option.splits)

lemma Bind_faults: "TcpIp_Bind env i a (Some port) k \<noteq> Inl f"
  by (simp add: TcpIp_Bind_def call_ptr_def call_err_def Let_def)

lemma Listen_faults: "TcpIp_TcpListen env i m k = Inl f \<Longrightarrow> f = DanglingRead"
  by (auto simp: TcpIp_TcpListen_def Let_def call_ptr_def rbind_Inl_iff split: if_splits
      dest: read_faults)

lemma Send_faults:
  "TcpIp_send env (Some d) n k = Inl f \<Longrightarrow>
     f \<in> (if length d < unat n then {OutOfBounds} else {NullDeref, DanglingRead})"
  by (auto simp: TcpIp_send_def Let_def call_err_def rbind_Inl_iff split: if_splits option.splits
      dest!: read_faults(3))

lemma Recv_faults:
  assumes "rx_inv (rx k)" and "rx_content (rx k) \<noteq> Some None" and "TcpIp_recv env d k = Inl f"
  shows "f = DanglingRead \<or> f = OutOfBounds"
proof -
  from pop_inv [OF assms(1)] assms(2) obtain m r
    where "pop_pbuf_from_rx_ctrl_blk (rx k) = Inr (m, r)"
    by (auto simp: returns_iff)
  with assms(3) show ?thesis
    by (auto simp: TcpIp_recv_def Let_def rbind_Inl_iff split: option.splits if_splits
        dest: read_faults copy_loop_faults)
qed

lemma tcpip_init_simps [simp]:
  "rx tcpip_init = rx_init" "tcpip_raw_pcb tcpip_init = None" "tr tcpip_init = []"
  "length (Lwip_EthPkt tcpip_init) = 1500"
  by (simp_all add: tcpip_init_def ETHERNET_MTU_def)

lemma demo_pbuf_simps [simp]:
  "pb_len demo_pbuf = 3" "pb_tot_len demo_pbuf = 3" "pb_payload demo_pbuf = [1, 2, 3]"
  by (simp_all add: demo_pbuf_def)

subsection \<open>Properties\<close>

text \<open>A good packet that arrives while none is waiting is acknowledged with its total length,
  queued, and its reference given back to lwIP; the caller's bytes are not copied.\<close>
theorem raw_recv_queues_and_releases:
  assumes "rx_inv (rx s)" and "rx_content (rx s) = None" and "pbuf_at env (tr s) a = Some b"
  shows "returns (tcpip_raw_recv env tpcb (Some a) ERR_OK s) (\<lambda>(e, s'). e = ERR_OK \<and>
    rx_inv (rx s') \<and> rx_content (rx s') = Some (Some a) \<and> tcpip_raw_pcb s' = tcpip_raw_pcb s \<and>
    tr s' = tr s @ [Tcp_recved tpcb (pb_tot_len b), Pbuf_free (Some a)])"
  using assms by (simp add: raw_recv_ok push_value_inv push_value_content recv_events_def)

theorem raw_recv_queues_and_releases_witness:
  "returns (tcpip_raw_recv demo_env (Some 1) (Some 7) ERR_OK tcpip_init) (\<lambda>(e, s').
     rx_content (rx s') = Some (Some 7) \<and> tr s' = [Tcp_recved (Some 1) 3, Pbuf_free (Some 7)])"
  using raw_recv_queues_and_releases [of tcpip_init demo_env 7 demo_pbuf "Some 1"]
  by (auto simp: rx_inv_init demo_env_def elim: returns_mono)

text \<open>A good packet that arrives while one is waiting is acknowledged to the peer and released
  as if it had been delivered, but it is not queued: its data is lost.\<close>
theorem raw_recv_acknowledges_lost_packet:
  assumes "rx_inv (rx s)" and "rx_content (rx s) = Some m" and "pbuf_at env (tr s) a = Some b"
  shows "returns (tcpip_raw_recv env tpcb (Some a) ERR_OK s) (\<lambda>(e, s'). e = ERR_OK \<and>
    rx_content (rx s') = Some m \<and>
    tr s' = tr s @ [Tcp_recved tpcb (pb_tot_len b), Pbuf_free (Some a)])"
  using assms by (simp add: raw_recv_ok push_value_content recv_events_def)

lemma one_waiting: "rx_inv (push_value (Some 5) rx_init)"
  "rx_content (push_value (Some 5) rx_init) = Some (Some 5)"
  by (simp_all add: rx_inv_init push_value_inv push_value_content)

theorem raw_recv_acknowledges_lost_packet_witness:
  "returns (tcpip_raw_recv demo_env (Some 1) (Some 7) ERR_OK
      (tcpip_init\<lparr>rx := push_value (Some 5) rx_init\<rparr>))
    (\<lambda>(e, s'). rx_content (rx s') = Some (Some 5) \<and>
       tr s' = [Tcp_recved (Some 1) 3, Pbuf_free (Some 7)])"
  using raw_recv_acknowledges_lost_packet
    [of "tcpip_init\<lparr>rx := push_value (Some 5) rx_init\<rparr>" "Some 5" demo_env 7 demo_pbuf "Some 1"]
  by (auto simp: one_waiting demo_env_def elim: returns_mono)

text \<open>Use after release. If lwIP's \<open>pbuf_free\<close> releases the packet (its documented
  behaviour for the last reference), then reading the packet that was just queued is a read of
  released memory: \<open>TcpIp_recv\<close> after \<open>tcpip_raw_recv\<close> faults.\<close>
theorem recv_reads_released_packet:
  assumes "rx_inv (rx s)" and "rx_content (rx s) = None" and "pbuf_at env (tr s) a = Some b"
    and released: "\<And>t. pbuf_at env (t @ [Pbuf_free (Some a)]) a = None"
  shows "rbind (tcpip_raw_recv env tpcb (Some a) ERR_OK s) (\<lambda>(e, s'). TcpIp_recv env (Some dst) s')
    = Inl DanglingRead"
proof -
  let ?s = "s\<lparr>rx := push_value (Some a) (rx s), tr := tr s @ recv_events tpcb a b\<rparr>"
  have "pbuf_at env (tr ?s) a = None"
    using released [of "tr s @ [Tcp_recved tpcb (pb_tot_len b)]"] by (simp add: recv_events_def)
  then have "TcpIp_recv env (Some dst) ?s = Inl DanglingRead"
    using assms(1,2) by (intro recv_dangling) (simp_all add: push_value_inv push_value_content)
  then show ?thesis using assms(1,3) by (simp add: raw_recv_ok)
qed

theorem recv_reads_released_packet_witness:
  "rbind (tcpip_raw_recv demo_env (Some 1) (Some 7) ERR_OK tcpip_init)
     (\<lambda>(e, s'). TcpIp_recv demo_env (Some [0, 0, 0, 0]) s') = Inl DanglingRead"
  by (rule recv_reads_released_packet [where b = demo_pbuf]) (simp_all add: rx_inv_init demo_env_def)

text \<open>Reception and delivery end to end, when the memory of the released packet still holds
  it: the application gets exactly the first segment's bytes in front of the untouched rest of
  its buffer, and the queue is empty again.\<close>
theorem recv_delivers_first_segment:
  assumes "rx_inv (rx s)" and "rx_content (rx s) = None" and "pbuf_at env (tr s) a = Some b"
    and kept: "pbuf_at env (tr s @ [Tcp_recved tpcb (pb_tot_len b), Pbuf_free (Some a)]) a = Some b"
    and "unat (pb_len b) \<le> length (pb_payload b)" and "unat (pb_len b) \<le> length dst"
  shows "returns (rbind (tcpip_raw_recv env tpcb (Some a) ERR_OK s)
      (\<lambda>(e, s'). TcpIp_recv env (Some dst) s'))
    (\<lambda>(n, d, s'). n = int (unat (pb_len b)) \<and>
      d = Some (take (unat (pb_len b)) (pb_payload b) @ drop (unat (pb_len b)) dst) \<and>
      rx_content (rx s') = None)"
proof -
  let ?s = "s\<lparr>rx := push_value (Some a) (rx s), tr := tr s @ recv_events tpcb a b\<rparr>"
  have "returns (TcpIp_recv env (Some dst) ?s) (\<lambda>(n, d, s'). n = int (unat (pb_len b)) \<and>
      d = Some (take (unat (pb_len b)) (pb_payload b) @ drop (unat (pb_len b)) dst) \<and>
      rx_content (rx s') = None \<and> tr s' = tr ?s)"
    using recv_waiting [of ?s a env b dst] assms
    by (simp add: push_value_inv push_value_content recv_events_def)
  then show ?thesis using assms(1,3) by (auto simp: raw_recv_ok elim: returns_mono)
qed

theorem recv_delivers_first_segment_witness:
  "returns (rbind (tcpip_raw_recv keep_env (Some 1) (Some 7) ERR_OK tcpip_init)
      (\<lambda>(e, s'). TcpIp_recv keep_env (Some [9, 9, 9, 9]) s'))
    (\<lambda>(n, d, s'). n = 3 \<and> d = Some [1, 2, 3, 9])"
  using recv_delivers_first_segment [of tcpip_init keep_env 7 demo_pbuf "Some 1" "[9, 9, 9, 9]"]
  by (auto simp: rx_inv_init keep_env_def demo_env_def elim: returns_mono)

text \<open>\<open>TcpIp_recv\<close> knows no length of the caller's buffer. With a packet of \<open>len\<close>
  bytes waiting it delivers them if the buffer has room, and writes past the end of the buffer
  as soon as the buffer is shorter.\<close>
theorem recv_buffer_bound:
  assumes "rx_inv (rx s)" and "rx_content (rx s) = Some (Some a)"
    and "pbuf_at env (tr s) a = Some b" and "unat (pb_len b) \<le> length (pb_payload b)"
  shows "(TcpIp_recv env (Some dst) s = Inl OutOfBounds \<longleftrightarrow> length dst < unat (pb_len b)) \<and>
    ((\<exists>r. TcpIp_recv env (Some dst) s = Inr r) \<longleftrightarrow> unat (pb_len b) \<le> length dst)"
  using recv_waiting [OF assms, of dst] by (auto simp: returns_iff split: if_splits)

theorem recv_buffer_bound_witness:
  "TcpIp_recv keep_env (Some [0, 0]) (tcpip_init\<lparr>rx := push_value (Some 7) rx_init\<rparr>) = Inl OutOfBounds"
  using recv_buffer_bound [of "tcpip_init\<lparr>rx := push_value (Some 7) rx_init\<rparr>" 7 keep_env demo_pbuf "[0, 0]"]
  by (simp add: rx_inv_init push_value_inv push_value_content keep_env_def demo_env_def)

text \<open>A packet that reports an error, or the empty packet of a remote close: the packet is
  given back, all callbacks of the connection are removed and it is closed, in this order. The
  module's pointer still refers to the connection afterwards.\<close>
theorem raw_recv_error_closes:
  assumes "err \<noteq> ERR_OK \<or> p = None"
  shows "returns (tcpip_raw_recv env tpcb p err s) (\<lambda>(e, s'). e = ERR_OK \<and>
    tr s' = tr s @ [Pbuf_free p] @ detach tpcb @ [Tcp_close tpcb] \<and>
    rx s' = rx s \<and> tcpip_raw_pcb s' = tcpip_raw_pcb s)"
  using assms by (simp add: raw_recv_bad tcpip_raw_close_def detach_def)

theorem raw_recv_error_closes_witness:
  "returns (tcpip_raw_recv demo_env (Some 1) None ERR_OK (tcpip_init\<lparr>tcpip_raw_pcb := Some 1\<rparr>))
     (\<lambda>(e, s'). Tcp_close (Some 1) \<in> set (tr s') \<and> tcpip_raw_pcb s' = Some 1)"
  using raw_recv_error_closes [of ERR_OK None demo_env "Some 1" "tcpip_init\<lparr>tcpip_raw_pcb := Some 1\<rparr>"]
  by (auto elim: returns_mono)

text \<open>\<open>TcpIp_Close\<close> does not forget the connection: called twice it reports success
  twice and closes the same connection twice.\<close>
theorem close_twice_closes_twice:
  assumes "tcpip_raw_pcb s = Some a" and "TcpIp_Close i ab s = (r1, s1)"
    and "TcpIp_Close j ac s1 = (r2, s2)"
  shows "r1 = E_OK \<and> r2 = E_OK \<and> tcpip_raw_pcb s2 = Some a \<and>
    tr s2 = tr s @ detach (Some a) @ [Tcp_close (Some a)] @ detach (Some a) @ [Tcp_close (Some a)]"
  using assms by (auto simp: TcpIp_Close_def tcpip_raw_close_def detach_def)

theorem close_twice_closes_twice_witness:
  "tr (snd (TcpIp_Close 0 False (snd (TcpIp_Close 0 False (tcpip_init\<lparr>tcpip_raw_pcb := Some 1\<rparr>)))))
     = detach (Some 1) @ [Tcp_close (Some 1)] @ detach (Some 1) @ [Tcp_close (Some 1)]"
  using close_twice_closes_twice [of "tcpip_init\<lparr>tcpip_raw_pcb := Some 1\<rparr>" 1]
  by (simp add: prod_eq_iff)

text \<open>C35: the module's pointer outlives its connection. After a close by the application, after a
  remote close or an error on the connection, and after the error callback, which lwIP calls when it
  has already released the connection, \<open>tcpip_raw_pcb\<close> still refers to it. Once lwIP has
  released the memory, querying the state, listening, and a refused write of a buffer as long as
  the length says read released memory,
  binding without a port is still refused as if there were a connection, and a close reports
  success and passes the released connection to lwIP again.\<close>
theorem pointer_outlives_connection:
  assumes "tcpip_raw_pcb s = Some a"
    and "TcpIp_Close i ab s = (r, s') \<or> s' = tcpip_raw_error code s \<or>
      (\<exists>p err. (err \<noteq> ERR_OK \<or> p = None) \<and> tcpip_raw_recv env (Some a) p err s = Inr (ERR_OK, s'))"
    and released: "\<And>es. pcb_state_at env (tr s' @ es) a = None"
  shows "TcpIp_getConnState env j s' = Inl DanglingRead \<and>
    TcpIp_TcpListen env j m s' = Inl DanglingRead \<and>
    (case TcpIp_send env (Some bytes) n s' of
       Inl f \<Rightarrow> f = (if length bytes < unat n then OutOfBounds else DanglingRead)
     | Inr (v, k) \<Rightarrow> v = 0 \<and> last (tr k) = Tcp_write (Some a) bytes n 1) \<and>
    TcpIp_Bind env j l None s' = Inr (E_NOT_OK, s') \<and>
    TcpIp_Close j ac s' = (E_OK, emits (detach (Some a) @ [Tcp_close (Some a)]) s')"
proof -
  have pcb: "tcpip_raw_pcb s' = Some a"
    using assms(1,2) by (auto simp: TcpIp_Close_def tcpip_raw_error_def raw_recv_bad tcpip_raw_close_def)
  from released [of "[]"] have "pcb_state_at env (tr s') a = None" by simp
  with pcb released show ?thesis
    by (simp add: TcpIp_getConnState_def TcpIp_TcpListen_def TcpIp_send_def call_err_def
        TcpIp_Bind_def TcpIp_Close_def tcpip_raw_close_def detach_def)
qed

theorem pointer_outlives_connection_witness:
  "TcpIp_getConnState (demo_env\<lparr>pcb_state_at := (\<lambda>t a. if Tcp_close (Some a) \<in> set t then None else Some 4)\<rparr>) 0
     (snd (TcpIp_Close 0 False (tcpip_init\<lparr>tcpip_raw_pcb := Some 1\<rparr>))) = Inl DanglingRead"
  using pointer_outlives_connection [of "tcpip_init\<lparr>tcpip_raw_pcb := Some 1\<rparr>" 1 0 False E_OK
      "snd (TcpIp_Close 0 False (tcpip_init\<lparr>tcpip_raw_pcb := Some 1\<rparr>))" ERR_OK
      "demo_env\<lparr>pcb_state_at := (\<lambda>t a. if Tcp_close (Some a) \<in> set t then None else Some 4)\<rparr>" 0]
  by (simp add: TcpIp_Close_def tcpip_raw_close_def)

text \<open>\<open>TcpIp_send\<close>, with a buffer as long as it says, on a connection lwIP has not given
  back always returns: 0 exactly if the
  data is not NULL and lwIP took the whole buffer in one copying write on the module's
  connection, and one of the three negative codes otherwise; the receive queue and the
  connection are not touched.\<close>
theorem send_result_codes:
  assumes "tcpip_raw_pcb s = Some a" and "\<And>t. pcb_state_at env t a \<noteq> None"
    and "\<And>bytes. pdata = Some bytes \<Longrightarrow> unat len \<le> length bytes"
  shows "returns (TcpIp_send env pdata len s) (\<lambda>(r, s'). r \<in> {0, -1, -2, -3} \<and>
    rx s' = rx s \<and> tcpip_raw_pcb s' = Some a \<and>
    (r = -1 \<longleftrightarrow> pdata = None) \<and> (r = -1 \<longleftrightarrow> tr s' = tr s) \<and>
    (r = 0 \<longleftrightarrow> (\<exists>bytes. pdata = Some bytes \<and>
       tr s' = tr s @ [Tcp_write (Some a) bytes len 1] \<and> ans_err env (tr s') = ERR_OK)) \<and>
    (r = -2 \<longleftrightarrow> pdata \<noteq> None \<and> ans_err env (tr s') = ERR_MEM))"
proof (cases pdata)
  case None
  with assms(1) show ?thesis by (simp add: TcpIp_send_def)
next
  case (Some bytes)
  have "\<exists>v. read_pcb_state env t (Some a) = Inr v" for t
    using assms(2) [of t] by (auto simp: read_pcb_state_def)
  then obtain f where "\<And>t. read_pcb_state env t (Some a) = Inr (f t)" by metis
  with assms(1) assms(3) [OF Some] Some show ?thesis by (auto simp: TcpIp_send_def call_err_def Let_def)
qed

theorem send_result_codes_witness:
  "returns (TcpIp_send (demo_env\<lparr>ans_err := (\<lambda>t. ERR_MEM)\<rparr>) (Some [1, 2]) 2
      (tcpip_init\<lparr>tcpip_raw_pcb := Some 1\<rparr>)) (\<lambda>(r, s'). r = -2)"
  using send_result_codes [of "tcpip_init\<lparr>tcpip_raw_pcb := Some 1\<rparr>" 1
      "demo_env\<lparr>ans_err := (\<lambda>t. ERR_MEM)\<rparr>" "Some [1, 2]" 2]
  by (auto simp: demo_env_def elim: returns_mono)

text \<open>\<open>TcpIp_Bind\<close> and NULL. A NULL port is refused only while a connection exists;
  without one a connection is allocated first, and then NULL is dereferenced. If the allocation
  fails, \<open>TcpIp_Bind\<close> reports success with no connection, whatever the port.\<close>
theorem bind_null_port_and_failed_allocation:
  assumes "tcpip_raw_pcb s = None"
  shows "TcpIp_Bind env i a port s =
    (case ans_ptr env (tr s @ [Tcp_new_ip_type_any]) of
       None \<Rightarrow> Inr (E_OK, emit Tcp_new_ip_type_any s)
     | Some pcb \<Rightarrow>
         (case port of
            None \<Rightarrow> Inl NullDeref
          | Some n \<Rightarrow>
              let t = tr s @ [Tcp_new_ip_type_any, Tcp_bind_any (Some pcb) n]
              in Inr (if ans_err env t = ERR_OK then E_OK else E_NOT_OK,
                      s\<lparr>tcpip_raw_pcb := Some pcb, tr := t\<rparr>)))"
  using assms
  by (auto simp: TcpIp_Bind_def call_ptr_def call_err_def Let_def emit_def split: option.splits)

theorem bind_null_port_and_failed_allocation_witness:
  "TcpIp_Bind demo_env 0 0 None tcpip_init = Inl NullDeref \<and>
   TcpIp_Bind (demo_env\<lparr>ans_ptr := (\<lambda>t. None)\<rparr>) 0 0 (Some 80) tcpip_init
     = Inr (E_OK, emit Tcp_new_ip_type_any tcpip_init)"
  using bind_null_port_and_failed_allocation [of tcpip_init demo_env 0 0 None]
    bind_null_port_and_failed_allocation
      [of tcpip_init "demo_env\<lparr>ans_ptr := (\<lambda>t. None)\<rparr>" 0 0 "Some 80"]
  by (simp add: demo_env_def)

text \<open>\<open>TcpIp_Bind\<close> over an existing connection replaces the module's pointer without
  closing the old connection.\<close>
theorem bind_drops_previous_connection:
  assumes "tcpip_raw_pcb s = Some old" and "ans_ptr env (tr s @ [Tcp_new_ip_type_any]) = Some new"
  shows "returns (TcpIp_Bind env i a (Some n) s) (\<lambda>(r, s'). tcpip_raw_pcb s' = Some new \<and>
    tr s' = tr s @ [Tcp_new_ip_type_any, Tcp_bind_any (Some new) n])"
  using assms by (simp add: TcpIp_Bind_def call_ptr_def call_err_def Let_def)

theorem bind_drops_previous_connection_witness:
  "returns (TcpIp_Bind demo_env 0 0 (Some 80) (tcpip_init\<lparr>tcpip_raw_pcb := Some 5\<rparr>))
     (\<lambda>(r, s'). tcpip_raw_pcb s' = Some 1)"
  using bind_drops_previous_connection [of "tcpip_init\<lparr>tcpip_raw_pcb := Some 5\<rparr>" 5 demo_env 1 0 0 80]
  by (auto simp: demo_env_def elim: returns_mono)

text \<open>A failed listen is reported as success: if lwIP's \<open>tcp_listen\<close> returns NULL,
  \<open>TcpIp_TcpListen\<close> returns \<open>E_OK\<close> and overwrites the module's connection with NULL,
  so that the next query of the connection state dereferences NULL.\<close>
theorem listen_failure_reported_as_success:
  assumes "tcpip_raw_pcb s = Some a" and "pcb_state_at env (tr s) a = Some v" and "v < 2"
    and "ans_ptr env (tr s @ [Tcp_listen (Some a)]) = None"
  shows "returns (TcpIp_TcpListen env i m s) (\<lambda>(r, s'). r = E_OK \<and> tcpip_raw_pcb s' = None \<and>
    TcpIp_getConnState env i s' = Inl NullDeref)"
  using assms by (simp add: TcpIp_TcpListen_def call_ptr_def Let_def TcpIp_getConnState_def)

theorem listen_failure_reported_as_success_witness:
  "returns (TcpIp_TcpListen (demo_env\<lparr>pcb_state_at := (\<lambda>t a. Some 0), ans_ptr := (\<lambda>t. None)\<rparr>) 0 0
      (tcpip_init\<lparr>tcpip_raw_pcb := Some 1\<rparr>)) (\<lambda>(r, s'). r = E_OK \<and> tcpip_raw_pcb s' = None)"
  using listen_failure_reported_as_success [of "tcpip_init\<lparr>tcpip_raw_pcb := Some 1\<rparr>" 1
      "demo_env\<lparr>pcb_state_at := (\<lambda>t a. Some 0), ans_ptr := (\<lambda>t. None)\<rparr>" 0 0 0]
  by (auto elim: returns_mono)

text \<open>A client connection is never usable: \<open>TcpIp_TcpConnect\<close> to a given address always
  returns and does not store the connection it makes, so that without a server connection the
  state query, and every refused write, dereference NULL after a successful connect.\<close>
theorem connect_leaves_module_unconnected:
  assumes "tcpip_raw_pcb s = None"
  shows "returns (TcpIp_TcpConnect env i (Some remote) s) (\<lambda>(r, s'). tcpip_raw_pcb s' = None \<and>
    rx s' = rx s \<and>
    (r = E_OK \<longleftrightarrow> (\<exists>p. ans_ptr env (tr s @ [Tcp_new]) = Some p \<and>
       last (tr s') = Tcp_connect (Some p) (inet4_addr0 remote) (sa_port remote) Fn_raw_connected \<and>
       ans_err env (tr s') = ERR_OK)) \<and>
    TcpIp_getConnState env i s' = Inl NullDeref \<and>
    (\<forall>bytes n. ans_err env (tr s' @ [Tcp_write None bytes n 1]) \<noteq> ERR_OK \<and> unat n \<le> length bytes \<longrightarrow>
       TcpIp_send env (Some bytes) n s' = Inl NullDeref))"
  using assms
  by (auto simp: TcpIp_TcpConnect_def call_ptr_def call_err_def Let_def TcpIp_getConnState_def
      TcpIp_send_def)

theorem connect_leaves_module_unconnected_witness:
  "returns (TcpIp_TcpConnect demo_env 0
       (Some \<lparr>sa_domain = 2, sa_port = 80, sa_addr0 = 1, sa_addr_rest = []\<rparr>) tcpip_init) (\<lambda>(r, s').
     TcpIp_getConnState demo_env 0 s' = Inl NullDeref)"
  using connect_leaves_module_unconnected [of tcpip_init demo_env 0
      "\<lparr>sa_domain = 2, sa_port = 80, sa_addr0 = 1, sa_addr_rest = []\<rparr>"]
  by (auto elim: returns_mono)

text \<open>A failed accept forgets the listening connection: \<open>tcpip_raw_accept\<close> stores the
  connection before it checks it, so that after a call with NULL the module has no connection,
  and closing reports an error and closes nothing.\<close>
theorem failed_accept_forgets_listener:
  assumes "tcpip_raw_accept None err s = (r, s1)" and "TcpIp_Close i ab s1 = (c, s2)"
  shows "r = ERR_VAL \<and> tcpip_raw_pcb s1 = None \<and> c = E_NOT_OK \<and> tr s2 = tr s"
  using assms by (auto simp: tcpip_raw_accept_def TcpIp_Close_def)

theorem failed_accept_forgets_listener_witness:
  "fst (TcpIp_Close 0 False (snd (tcpip_raw_accept None ERR_OK
      (tcpip_init\<lparr>tcpip_raw_pcb := Some 5\<rparr>)))) = E_NOT_OK"
  using failed_accept_forgets_listener [of ERR_OK "tcpip_init\<lparr>tcpip_raw_pcb := Some 5\<rparr>"]
  by (simp add: prod_eq_iff)

end
