(* ===== verification/Lwip_Int.thy ===== *)
theory Lwip_Int
  imports Tcp_Core
begin

text \<open>
  \<open>src/lwip_int.c\<close>: the interface functions lwIP calls, the periodic function that moves
  a received frame into lwIP and runs its timers, and the initialisation; with the two
  entry points of \<open>src/TcpIp.c\<close> that forward to them.
\<close>

subsection \<open>Interface functions\<close>

definition netif_output :: "lwip_env \<Rightarrow> nat \<Rightarrow> cptr \<Rightarrow> tcpip_state \<Rightarrow> (err_t \<times> tcpip_state) result"
  where
  "netif_output env netif p s =
     (let s = emit Link_stats_xmit s
      in rbind (read_pbuf env (tr s) p) (\<lambda>b.
         if length (pb_payload b) < unat (pb_len b) then Inl OutOfBounds
         else Inr (ERR_OK, emit (Macphy_pkt_send (take (unat (pb_len b)) (pb_payload b))) s)))"

definition netif_status_callback :: "nat \<Rightarrow> tcpip_state \<Rightarrow> tcpip_state" where
  "netif_status_callback netif s = s"

text \<open>The copy of the hardware address reads as many bytes as \<open>netif->hwaddr\<close> has.\<close>

definition netif_initialize :: "lwip_env \<Rightarrow> nat \<Rightarrow> tcpip_state \<Rightarrow> (err_t \<times> tcpip_state) result" where
  "netif_initialize env netif s =
     (if length (env_mac env) < env_hwaddr_size env then Inl OutOfBounds
      else Inr (ERR_OK,
      emit (Netif_fields_set netif
        \<lparr>nf_linkoutput = Fn_netif_output,
         nf_output = Fn_etharp_output,
         nf_mtu = ETHERNET_MTU,
         nf_flags = {NETIF_FLAG_BROADCAST, NETIF_FLAG_ETHARP, NETIF_FLAG_ETHERNET,
                     NETIF_FLAG_IGMP, NETIF_FLAG_MLD6},
         nf_hwaddr = take (env_hwaddr_size env) (env_mac env),
         nf_hwaddr_len = of_nat (env_hwaddr_size env)\<rparr>) s))"

subsection \<open>Callbacks run inside a call\<close>

definition run_callback :: "lwip_env \<Rightarrow> callback \<Rightarrow> tcpip_state \<Rightarrow> tcpip_state result" where
  "run_callback env cb s =
     (case cb of
        Cb_recv tpcb p err \<Rightarrow> rbind (tcpip_raw_recv env tpcb p err s) (\<lambda>(_, s). Inr s)
      | Cb_accept newpcb err \<Rightarrow> Inr (snd (tcpip_raw_accept newpcb err s))
      | Cb_error err \<Rightarrow> Inr (tcpip_raw_error err s)
      | Cb_connected tpcb err \<Rightarrow> Inr (snd (tcpip_raw_connected tpcb err s))
      | Cb_linkoutput netif p \<Rightarrow> rbind (netif_output env netif p s) (\<lambda>(_, s). Inr s)
      | Cb_status netif \<Rightarrow> Inr (netif_status_callback netif s))"

fun run_callbacks :: "lwip_env \<Rightarrow> callback list \<Rightarrow> tcpip_state \<Rightarrow> tcpip_state result" where
  "run_callbacks env [] s = Inr s"
| "run_callbacks env (cb # cbs) s = rbind (run_callback env cb s) (run_callbacks env cbs)"

definition call_cbs :: "lwip_env \<Rightarrow> event \<Rightarrow> tcpip_state \<Rightarrow> tcpip_state result" where
  "call_cbs env e s = (let s = emit e s in run_callbacks env (callbacks env (tr s)) s)"

subsection \<open>The periodic function\<close>

text \<open>Bytes the driver writes over the front of the static frame buffer.\<close>

definition overlay :: "'a list \<Rightarrow> 'a list \<Rightarrow> 'a list" where
  "overlay bytes buf = bytes @ drop (length bytes) buf"

text \<open>The loop over the interfaces, from interface \<open>i\<close> of \<open>n\<close>.\<close>

function input_loop :: "lwip_env \<Rightarrow> cptr \<Rightarrow> nat \<Rightarrow> nat \<Rightarrow> tcpip_state \<Rightarrow> tcpip_state result" where
  "input_loop env p n i s =
     (if i < n then
        if \<not> netif_input_set env (tr s) i then Inl NullDeref
        else
          rbind (call_cbs env (Netif_input p i) s) (\<lambda>s.
          let s = (if ans_err env (tr s) \<noteq> ERR_OK then emit (Pbuf_free p) s else s)
          in input_loop env p n (i + 1) s)
      else Inr s)"
  by pat_completeness auto
termination
  by (relation "measure (\<lambda>(env, p, n, i, s). n - i)") auto

declare input_loop.simps [simp del]

definition lwip_int_main :: "lwip_env \<Rightarrow> tcpip_state \<Rightarrow> tcpip_state result" where
  "lwip_int_main env s =
     (let s = emit (Macphy_pkt_recv ETHERNET_MTU) s;
          (packet_len, bytes) = ans_frame env (tr s)
      in if length (Lwip_EthPkt s) < length bytes then Inl OutOfBounds
         else
           let s = s\<lparr>Lwip_EthPkt := overlay bytes (Lwip_EthPkt s)\<rparr>
           in rbind
                (if packet_len \<noteq> 0 then
                   let (p, s) = call_ptr env (Pbuf_alloc_raw_pool packet_len) s
                   in if p \<noteq> None \<and> length (Lwip_EthPkt s) < unat packet_len then Inl OutOfBounds
                      else Inr (p, emit (Pbuf_take p (take (unat packet_len) (Lwip_EthPkt s))) s)
                 else Inr (None, s))
                (\<lambda>(p, s).
                 rbind
                   (if packet_len \<noteq> 0 \<and> p \<noteq> None
                    then input_loop env p MAX_TCPIP_LOCAL_ADDRESS 0 (emit Link_stats_recv s)
                    else Inr s)
                   (\<lambda>s. call_cbs env Sys_check_timeouts s)))"

subsection \<open>Initialisation\<close>

text \<open>One round of the loop of \<open>lwip_int_init\<close>.\<close>

definition init_netif :: "lwip_env \<Rightarrow> nat \<Rightarrow> tcpip_state \<Rightarrow> tcpip_state result" where
  "init_netif env i s =
     (if length TcpIpLocalAddrConfigs \<le> i then Inl OutOfBounds
      else
        let cfg = TcpIpLocalAddrConfigs ! i;
            static_ip = env_ip4_addr env (ip_addr cfg ! 0) (ip_addr cfg ! 1)
              (ip_addr cfg ! 2) (ip_addr cfg ! 3);
            mask = env_ip4_addr env (ip_netmask cfg ! 0) (ip_netmask cfg ! 1)
              (ip_netmask cfg ! 2) (ip_netmask cfg ! 3);
            addr = env_ip4_addr env (ip_dfroutr cfg ! 0) (ip_dfroutr cfg ! 1)
              (ip_dfroutr cfg ! 2) (ip_dfroutr cfg ! 3);
            s = emits [Lwip_init, Netif_add i static_ip mask addr] s
        in rbind (if netif_add_inits env (tr s)
                  then rbind (netif_initialize env i s) (\<lambda>(_, s). Inr s) else Inr s) (\<lambda>s.
        let s = emits [Netif_name_set i (of_char (CHR ''e'')) (of_char (CHR ''0'') + ucast (addr_id cfg)),
                       Netif_set_status_callback i] s
        in rbind (call_cbs env (Netif_set_default i) s) (\<lambda>s.
           rbind (call_cbs env (Netif_set_up i) s) (\<lambda>s.
           rbind (call_cbs env (Dhcp_inform i) s) (\<lambda>s.
           call_cbs env (Netif_set_link_up i) s)))))"

function init_loop :: "lwip_env \<Rightarrow> nat \<Rightarrow> tcpip_state \<Rightarrow> tcpip_state result" where
  "init_loop env i s =
     (if i < MAX_TCPIP_LOCAL_ADDRESS
      then rbind (init_netif env i s) (\<lambda>s. init_loop env (i + 1) s)
      else Inr s)"
  by pat_completeness auto
termination
  by (relation "measure (\<lambda>(env, i, s). MAX_TCPIP_LOCAL_ADDRESS - i)") auto

declare init_loop.simps [simp del]

definition lwip_int_init :: "lwip_env \<Rightarrow> tcpip_state \<Rightarrow> tcpip_state result" where
  "lwip_int_init env s =
     (if MAX_TCPIP_LOCAL_ADDRESS < 1 then Inr s else init_loop env 0 s)"

subsection \<open>The entry points of the operating system\<close>

definition TcpIp_Init :: "lwip_env \<Rightarrow> TcpIp_ConfigType option \<Rightarrow> tcpip_state \<Rightarrow> tcpip_state result"
  where
  "TcpIp_Init env ConfigPtr s = lwip_int_init env s"

definition TcpIp_MainFunction :: "lwip_env \<Rightarrow> tcpip_state \<Rightarrow> tcpip_state result" where
  "TcpIp_MainFunction env s = lwip_int_main env s"

subsection \<open>The invariant of the module\<close>

lemma output_keeps [core_keeps]:
  "core_inv s \<Longrightarrow> ensures (netif_output env i p s) (\<lambda>(e, s'). core_inv s')"
  by (auto simp: netif_output_def Let_def split: if_splits intro!: ensuresI)

lemma netif_initialize_keeps [core_keeps]:
  "core_inv s \<Longrightarrow> ensures (netif_initialize env i s) (\<lambda>(e, s'). core_inv s')"
  by (simp add: netif_initialize_def)

lemma run_callback_keeps [core_keeps]:
  assumes "core_inv s"
  shows "ensures (run_callback env cb s) core_inv"
proof (cases cb)
  case (Cb_recv tpcb p err)
  with raw_recv_keeps [OF assms, of env tpcb p err] show ?thesis
    by (auto simp: run_callback_def elim: ensures_mono)
next
  case (Cb_linkoutput i p)
  with output_keeps [OF assms, of env i p] show ?thesis
    by (auto simp: run_callback_def elim: ensures_mono)
next
  case (Cb_accept newpcb err)
  with assms show ?thesis by (simp add: run_callback_def raw_accept_keeps)
qed (use assms in \<open>simp_all add: run_callback_def tcpip_raw_error_def tcpip_raw_connected_def
      netif_status_callback_def\<close>)

lemma run_callbacks_keep [core_keeps]: "core_inv s \<Longrightarrow> ensures (run_callbacks env cbs s) core_inv"
proof (induction cbs arbitrary: s)
  case Nil
  then show ?case by simp
next
  case (Cons cb cbs)
  then show ?case by (auto intro: ensures_mono [OF run_callback_keeps])
qed

lemma call_cbs_keep [core_keeps]:
  "core_inv s \<Longrightarrow> no_close [e] \<Longrightarrow> ensures (call_cbs env e s) core_inv"
  by (simp add: call_cbs_def run_callbacks_keep)

lemma input_loop_keeps [core_keeps]: "core_inv s \<Longrightarrow> ensures (input_loop env p n i s) core_inv"
proof (induction env p n i s rule: input_loop.induct)
  case (1 env p n i s)
  show ?case
  proof (cases "i < n \<and> netif_input_set env (tr s) i")
    case True
    have "ensures (call_cbs env (Netif_input p i) s) (\<lambda>s1. ensures
        (input_loop env p n (i + 1)
           (if ans_err env (tr s1) \<noteq> ERR_OK then emit (Pbuf_free p) s1 else s1)) core_inv)"
    proof (rule ensuresI)
      fix s1
      assume s1: "call_cbs env (Netif_input p i) s = Inr s1"
      with "1.prems" have "core_inv s1" by (auto dest: ensuresD [OF call_cbs_keep])
      with True s1 "1.IH" [of s1] show "ensures (input_loop env p n (i + 1)
           (if ans_err env (tr s1) \<noteq> ERR_OK then emit (Pbuf_free p) s1 else s1)) core_inv"
        by auto
    qed
    with True show ?thesis by (simp add: input_loop.simps [of env p n i s] Let_def)
  next
    case False
    with "1.prems" show ?thesis by (auto simp: input_loop.simps [of env p n i s])
  qed
qed

lemma length_overlay [simp]: "length bytes \<le> length buf \<Longrightarrow> length (overlay bytes buf) = length buf"
  by (simp add: overlay_def)

lemma core_inv_pkt [simp]:
  "length buf = length (Lwip_EthPkt s) \<Longrightarrow> core_inv (s\<lparr>Lwip_EthPkt := buf\<rparr>) = core_inv s"
  by (simp add: core_inv_def)

text \<open>The part of \<open>lwip_int_main\<close> up to the loop over the interfaces.\<close>

lemma lwip_int_main_keeps [core_keeps]:
  assumes "core_inv s"
  shows "ensures (lwip_int_main env s) core_inv"
proof -
  have *: "ensures (call_cbs env Sys_check_timeouts t) core_inv"
    "ensures (input_loop env p n 0 (emit Link_stats_recv t)) (\<lambda>u.
       ensures (call_cbs env Sys_check_timeouts u) core_inv)" if "core_inv t" for t p n
    using that by (auto intro!: call_cbs_keep ensures_mono [OF input_loop_keeps])
  from assms show ?thesis
    by (auto simp: lwip_int_main_def Let_def call_ptr_def * split: prod.splits if_splits)
qed

lemma init_netif_keeps [core_keeps]: "core_inv s \<Longrightarrow> ensures (init_netif env i s) core_inv"
  by (auto simp: init_netif_def Let_def netif_initialize_def
      intro!: ensures_mono [OF call_cbs_keep] call_cbs_keep)

lemma lwip_int_init_keeps [core_keeps]: "core_inv s \<Longrightarrow> ensures (lwip_int_init env s) core_inv"
  by (auto simp: lwip_int_init_def init_loop.simps MAX_TCPIP_LOCAL_ADDRESS_def
      intro!: ensures_mono [OF init_netif_keeps])

subsection \<open>Sequences of calls\<close>

lemma emit_emits [simp]:
  "emit e (emit d s) = emits [d, e] s" "emits es (emit d s) = emits (d # es) s"
  "emit e (emits ds s) = emits (ds @ [e]) s" "emits es (emits ds s) = emits (ds @ es) s"
  by (simp_all add: emit_def emits_def)

lemma overlay_take: "k \<le> length bytes \<Longrightarrow> take k (overlay bytes buf) = take k bytes"
  by (simp add: overlay_def)

subsection \<open>Properties\<close>

text \<open>The output function sends only the first segment of a packet and reports success: of a
  packet whose first segment is shorter than the whole, the driver gets fewer bytes than the
  packet has.\<close>
theorem output_truncates_chained_packet:
  assumes "pbuf_at env (tr s @ [Link_stats_xmit]) a = Some b"
    and "unat (pb_len b) \<le> length (pb_payload b)" and "pb_len b < pb_tot_len b"
  shows "returns (netif_output env i (Some a) s) (\<lambda>(e, s'). e = ERR_OK \<and>
    (\<exists>bytes. tr s' = tr s @ [Link_stats_xmit, Macphy_pkt_send bytes] \<and>
       bytes = take (unat (pb_len b)) (pb_payload b) \<and> length bytes < unat (pb_tot_len b)))"
  using assms by (simp add: netif_output_def Let_def word_less_nat_alt emits_def)

theorem output_truncates_chained_packet_witness:
  "returns (netif_output (demo_env\<lparr>pbuf_at := (\<lambda>t a. Some (demo_pbuf\<lparr>pb_tot_len := 9\<rparr>))\<rparr>) 0 (Some 7)
      tcpip_init) (\<lambda>(e, s'). e = ERR_OK \<and> tr s' = [Link_stats_xmit, Macphy_pkt_send [1, 2, 3]])"
  using output_truncates_chained_packet
    [of "demo_env\<lparr>pbuf_at := (\<lambda>t a. Some (demo_pbuf\<lparr>pb_tot_len := 9\<rparr>))\<rparr>" tcpip_init 7
      "demo_pbuf\<lparr>pb_tot_len := 9\<rparr>" 0]
  by (auto simp: demo_env_def elim: returns_mono)

end
