(* ===== verification/Socket_Ext.thy ===== *)
theory Socket_Ext
  imports Tcp_Core
begin

text \<open>
  \<open>src/tcpip_extensions.h\<close> and \<open>src/tcpip_extensions.c\<close>: the table of socket
  connections and the operations on it, which call \<open>src/TcpIp.c\<close>.
\<close>

subsection \<open>State\<close>

definition MAX_TCPIP_SOCKET_HANDLES :: int where
  "MAX_TCPIP_SOCKET_HANDLES = 512"

record OS_WaitEventType =
  we_state :: u8

abbreviation no_event :: OS_WaitEventType where
  "no_event \<equiv> \<lparr>we_state = 0\<rparr>"

record TcpIp_Socket =
  SocketFd :: int
  SocketId :: u16
  TcpState :: TcpIp_ConnState
  WaitEvent :: OS_WaitEventType

record socket_state =
  core :: tcpip_state
  TcpIp_Socket_Conn :: "TcpIp_Socket list"
  TcpIp_No_Socket_Conn :: int

definition socket_init :: socket_state where
  "socket_init = \<lparr>core = tcpip_init,
     TcpIp_Socket_Conn = replicate (nat MAX_TCPIP_SOCKET_HANDLES)
       \<lparr>SocketFd = 0, SocketId = 0, TcpState = TCPIP_CLOSED, WaitEvent = no_event\<rparr>,
     TcpIp_No_Socket_Conn = 0\<rparr>"

text \<open>Access to the table by index.\<close>

definition conn_at :: "int \<Rightarrow> socket_state \<Rightarrow> TcpIp_Socket result" where
  "conn_at fd s =
     (if 0 \<le> fd \<and> fd < int (length (TcpIp_Socket_Conn s))
      then Inr (TcpIp_Socket_Conn s ! nat fd) else Inl OutOfBounds)"

definition set_conn :: "int \<Rightarrow> TcpIp_Socket \<Rightarrow> socket_state \<Rightarrow> socket_state result" where
  "set_conn fd c s =
     (if 0 \<le> fd \<and> fd < int (length (TcpIp_Socket_Conn s))
      then Inr (s\<lparr>TcpIp_Socket_Conn := (TcpIp_Socket_Conn s)[nat fd := c]\<rparr>) else Inl OutOfBounds)"

text \<open>The two range tests every operation starts with.\<close>

definition fd_rejected :: "int \<Rightarrow> bool" where
  "fd_rejected sockfd \<longleftrightarrow> 0 > sockfd \<or> MAX_TCPIP_SOCKET_HANDLES < sockfd"

text \<open>\<open>++\<close> on a C \<open>int\<close>.\<close>

definition int_inc :: "int \<Rightarrow> int result" where
  "int_inc n = (if n < 2 ^ 31 - 1 then Inr (n + 1) else Inl IntOverflow)"

subsection \<open>Operations\<close>

definition TcpIp_Socket_Init :: "int \<Rightarrow> socket_state \<Rightarrow> (Std_ReturnType \<times> socket_state) result" where
  "TcpIp_Socket_Init sockfd s =
     (if fd_rejected sockfd then Inr (E_NOK, s)
      else
        rbind (conn_at sockfd s) (\<lambda>c.
        rbind (set_conn sockfd (c\<lparr>SocketFd := sockfd, SocketId := of_int sockfd,
                 TcpState := TCPIP_CLOSED\<rparr>) s) (\<lambda>s.
        rbind (int_inc (TcpIp_No_Socket_Conn s)) (\<lambda>n.
        Inr (E_OK, s\<lparr>TcpIp_No_Socket_Conn := n\<rparr>)))))"

text \<open>
  \<open>TcpIp_Socket_Bind\<close>. The source's last assignment, \<open>TcpState = TCPIP_BIND\<close>, is to
  a local variable that is not read again.
\<close>

definition TcpIp_Socket_Bind :: "lwip_env \<Rightarrow> int \<Rightarrow> u16 \<Rightarrow> socket_state
    \<Rightarrow> (Std_ReturnType \<times> socket_state) result" where
  "TcpIp_Socket_Bind env sockfd port s =
     (if fd_rejected sockfd then Inr (E_NOK, s)
      else
        rbind (conn_at sockfd s) (\<lambda>c.
        if TcpState c = TCPIP_CLOSED then
          rbind (TcpIp_Bind env (SocketId c) 0 (Some port) (core s)) (\<lambda>(retval, k).
          Inr (retval, s\<lparr>core := k\<rparr>))
        else Inr (E_NOK, s)))"

definition TcpIp_Socket_Listen :: "lwip_env \<Rightarrow> int \<Rightarrow> socket_state
    \<Rightarrow> (Std_ReturnType \<times> socket_state) result" where
  "TcpIp_Socket_Listen env sockfd s =
     (if fd_rejected sockfd then Inr (E_NOK, s)
      else
        rbind (conn_at sockfd s) (\<lambda>c.
        if TcpState c = TCPIP_BIND \<or> TcpState c = TCPIP_LISTEN then
          rbind (TcpIp_TcpListen env (SocketId c) 0 (core s)) (\<lambda>(retval, k).
          let s = s\<lparr>core := k\<rparr>
          in rbind (conn_at sockfd s) (\<lambda>c.
             rbind (set_conn sockfd (c\<lparr>TcpState := (if retval = E_OK then TCPIP_ACCEPT
                      else TCPIP_LISTEN)\<rparr>) s) (\<lambda>s.
             Inr (retval, s))))
        else Inr (E_NOK, s)))"

text \<open>
  The polling loop of \<open>TcpIp_Socket_Accept_Condition\<close>: \<open>obs k\<close> is what the \<open>k\<close>-th
  read of \<open>socket->TcpState\<close> sees; \<open>None\<close> if the loop never ends.
\<close>

partial_function (option) accept_spin :: "(nat \<Rightarrow> TcpIp_ConnState) \<Rightarrow> nat \<Rightarrow> nat option" where
  "accept_spin obs k = (if TCPIP_ACCEPT \<noteq> obs k then accept_spin obs (k + 1) else Some k)"

definition TcpIp_Socket_Accept_Condition :: "(nat \<Rightarrow> TcpIp_ConnState) option \<Rightarrow> Std_ReturnType option"
  where
  "TcpIp_Socket_Accept_Condition data =
     (case data of
        None \<Rightarrow> Some E_NOK
      | Some obs \<Rightarrow> map_option (\<lambda>_. E_OK) (accept_spin obs 0))"

definition OS_WaitEvent_Interruptable :: "OS_WaitEventType \<Rightarrow> 'c \<Rightarrow> 's \<Rightarrow> Std_ReturnType \<times> 's" where
  "OS_WaitEvent_Interruptable waitevent condition s = (E_OK, s)"

definition OS_WaitEvent_Wakeup :: "OS_WaitEventType \<Rightarrow> 's \<Rightarrow> Std_ReturnType \<times> 's" where
  "OS_WaitEvent_Wakeup waitevent s = (E_OK, s)"

definition TcpIp_Socket_Accept :: "int \<Rightarrow> socket_state \<Rightarrow> (Std_ReturnType \<times> socket_state) result"
  where
  "TcpIp_Socket_Accept sockfd s =
     (if fd_rejected sockfd then Inr (E_NOK, s)
      else
        rbind (conn_at sockfd s) (\<lambda>c.
        if TCPIP_LISTEN = TcpState c then
          let (_, s) = OS_WaitEvent_Interruptable (WaitEvent c) TcpIp_Socket_Accept_Condition s
          in rbind (conn_at sockfd s) (\<lambda>c.
             Inr (if TCPIP_ACCEPT = TcpState c then E_OK else E_NOK, s))
        else if TCPIP_ACCEPT = TcpState c then Inr (E_OK, s)
        else Inr (E_NOK, s)))"

text \<open>
  \<open>TcpIp_Socket_Recv\<close> and \<open>TcpIp_Socket_Send\<close>. On a rejected descriptor the source
  assigns to \<open>retval\<close>, which it does not declare; the value returned is the size, 0.
\<close>

definition TcpIp_Socket_Recv :: "lwip_env \<Rightarrow> int \<Rightarrow> u8 list option \<Rightarrow> u32 \<Rightarrow> socket_state
    \<Rightarrow> (int \<times> u8 list option \<times> socket_state) result" where
  "TcpIp_Socket_Recv env sockfd data len s =
     (if fd_rejected sockfd then Inr (0, data, s)
      else
        rbind (conn_at sockfd s) (\<lambda>c.
        if TcpState c \<ge> TCPIP_ACCEPT then
          rbind (TcpIp_recv env data (core s)) (\<lambda>(RecvSize, data, k).
          Inr (RecvSize, data, s\<lparr>core := k\<rparr>))
        else Inr (0, data, s)))"

definition TcpIp_Socket_Send :: "lwip_env \<Rightarrow> int \<Rightarrow> u8 list option \<Rightarrow> u32 \<Rightarrow> socket_state
    \<Rightarrow> (int \<times> socket_state) result" where
  "TcpIp_Socket_Send env sockfd data len s =
     (if fd_rejected sockfd then Inr (0, s)
      else
        rbind (conn_at sockfd s) (\<lambda>c.
        if TcpState c \<ge> TCPIP_ACCEPT then
          if len > 0 then
            rbind (TcpIp_send env data (ucast len) (core s)) (\<lambda>(SendSize, k).
            Inr (SendSize, s\<lparr>core := k\<rparr>))
          else Inr (0, s)
        else Inr (0, s)))"

text \<open>
  \<open>TcpIp_Socket_Main_Loop\<close>, from connection \<open>con\<close>. Two names it uses are not in the
  repository and are parameters: the function \<open>TcpIp_TcpState\<close>, and the variable
  \<open>i\<close> of the loop's condition (\<open>i < TcpIp_No_Socket_Conn\<close>), which is not declared;
  \<open>i_at con\<close> is its value when the condition is tested for the \<open>con\<close>-th time.
\<close>

function main_loop :: "(u16 \<Rightarrow> TcpIp_ConnState) \<Rightarrow> (nat \<Rightarrow> int) \<Rightarrow> nat \<Rightarrow> socket_state
    \<Rightarrow> (Std_ReturnType \<times> socket_state) result" where
  "main_loop TcpIp_TcpState i_at con s =
     (if i_at con < TcpIp_No_Socket_Conn s then
        if con < length (TcpIp_Socket_Conn s) then
          let c = TcpIp_Socket_Conn s ! con;
              c = c\<lparr>TcpState := TcpIp_TcpState (SocketId c)\<rparr>;
              s = s\<lparr>TcpIp_Socket_Conn := (TcpIp_Socket_Conn s)[con := c]\<rparr>;
              s = (if TCPIP_ACCEPT = TcpState c then snd (OS_WaitEvent_Wakeup (WaitEvent c) s) else s)
          in main_loop TcpIp_TcpState i_at (con + 1) s
        else Inl OutOfBounds
      else Inr (E_OK, s))"
  by pat_completeness auto
termination
  by (relation "measure (\<lambda>(f, i, con, s). length (TcpIp_Socket_Conn s) - con)")
     (auto simp: OS_WaitEvent_Wakeup_def)

declare main_loop.simps [simp del]

definition TcpIp_Socket_Main_Loop :: "(u16 \<Rightarrow> TcpIp_ConnState) \<Rightarrow> (nat \<Rightarrow> int) \<Rightarrow> socket_state
    \<Rightarrow> (Std_ReturnType \<times> socket_state) result" where
  "TcpIp_Socket_Main_Loop TcpIp_TcpState i_at s = main_loop TcpIp_TcpState i_at 0 s"

subsection \<open>The contract of the descriptor check\<close>

text \<open>
  Every operation that takes a descriptor starts with the two range tests and then reads the
  table: a rejected descriptor gives a fixed answer and changes nothing, and a descriptor that
  passes the tests faults if the table has no such entry.
\<close>

locale fd_guarded =
  fixes operation :: "int \<Rightarrow> socket_state \<Rightarrow> 'r result" and refusal :: "socket_state \<Rightarrow> 'r"
  assumes rejected: "fd_rejected fd \<Longrightarrow> operation fd s = Inr (refusal s)"
    and unreadable: "\<not> fd_rejected fd \<Longrightarrow> conn_at fd s = Inl f \<Longrightarrow> operation fd s = Inl f"
begin

lemma outside_refused: "fd < 0 \<or> 512 < fd \<Longrightarrow> operation fd s = Inr (refusal s)"
  by (rule rejected) (simp add: fd_rejected_def MAX_TCPIP_SOCKET_HANDLES_def)

lemma past_end_faults:
  "length (TcpIp_Socket_Conn s) = 512 \<Longrightarrow> operation 512 s = Inl OutOfBounds"
  by (rule unreadable) (simp_all add: fd_rejected_def MAX_TCPIP_SOCKET_HANDLES_def conn_at_def)

end

interpretation fd_init: fd_guarded TcpIp_Socket_Init "\<lambda>s. (E_NOK, s)"
  by unfold_locales (simp_all add: TcpIp_Socket_Init_def)

interpretation fd_bind: fd_guarded "\<lambda>fd. TcpIp_Socket_Bind env fd port" "\<lambda>s. (E_NOK, s)" for env port
  by unfold_locales (simp_all add: TcpIp_Socket_Bind_def)

interpretation fd_listen: fd_guarded "TcpIp_Socket_Listen env" "\<lambda>s. (E_NOK, s)" for env
  by unfold_locales (simp_all add: TcpIp_Socket_Listen_def)

interpretation fd_accept: fd_guarded TcpIp_Socket_Accept "\<lambda>s. (E_NOK, s)"
  by unfold_locales (simp_all add: TcpIp_Socket_Accept_def)

interpretation fd_recv: fd_guarded "\<lambda>fd. TcpIp_Socket_Recv env fd data len" "\<lambda>s. (0, data, s)"
  for env data len
  by unfold_locales (simp_all add: TcpIp_Socket_Recv_def)

interpretation fd_send: fd_guarded "\<lambda>fd. TcpIp_Socket_Send env fd data len" "\<lambda>s. (0, s)"
  for env data len
  by unfold_locales (simp_all add: TcpIp_Socket_Send_def)

subsection \<open>Valid descriptors and the invariant of the table\<close>

definition valid_fd :: "int \<Rightarrow> socket_state \<Rightarrow> bool" where
  "valid_fd fd s \<longleftrightarrow> 0 \<le> fd \<and> fd < 512 \<and> length (TcpIp_Socket_Conn s) = 512"

abbreviation fd_state :: "int \<Rightarrow> socket_state \<Rightarrow> TcpIp_ConnState" where
  "fd_state fd s \<equiv> TcpState (TcpIp_Socket_Conn s ! nat fd)"

lemma valid_fd_simps [simp]:
  assumes "valid_fd fd s"
  shows "fd_rejected fd = False" "conn_at fd s = Inr (TcpIp_Socket_Conn s ! nat fd)"
    "set_conn fd c s = Inr (s\<lparr>TcpIp_Socket_Conn := (TcpIp_Socket_Conn s)[nat fd := c]\<rparr>)"
    "nat fd < length (TcpIp_Socket_Conn s)"
  using assms
  by (auto simp: valid_fd_def fd_rejected_def MAX_TCPIP_SOCKET_HANDLES_def conn_at_def set_conn_def)

lemma valid_fd_frame [simp]:
  "valid_fd fd (s\<lparr>core := k\<rparr>) = valid_fd fd s"
  "valid_fd fd (s\<lparr>TcpIp_No_Socket_Conn := n\<rparr>) = valid_fd fd s"
  "valid_fd fd (s\<lparr>TcpIp_Socket_Conn := (TcpIp_Socket_Conn s)[i := c]\<rparr>) = valid_fd fd s"
  by (simp_all add: valid_fd_def)

lemma valid_fd_init [simp]: "valid_fd fd socket_init \<longleftrightarrow> 0 \<le> fd \<and> fd < 512"
  by (simp add: valid_fd_def socket_init_def MAX_TCPIP_SOCKET_HANDLES_def)

text \<open>An entry's identifier is its descriptor, and lies in the table's range.\<close>

definition entry_wf :: "TcpIp_Socket \<Rightarrow> bool" where
  "entry_wf c \<longleftrightarrow> 0 \<le> SocketFd c \<and> SocketFd c < 512 \<and> SocketId c = of_int (SocketFd c)"

definition sock_inv :: "socket_state \<Rightarrow> bool" where
  "sock_inv s \<longleftrightarrow> core_inv (core s) \<and> length (TcpIp_Socket_Conn s) = 512 \<and>
     (\<forall>c \<in> set (TcpIp_Socket_Conn s). entry_wf c) \<and> 0 \<le> TcpIp_No_Socket_Conn s"

definition all_closed :: "socket_state \<Rightarrow> bool" where
  "all_closed s \<longleftrightarrow> (\<forall>c \<in> set (TcpIp_Socket_Conn s). TcpState c = TCPIP_CLOSED)"

lemma sock_inv_init: "sock_inv socket_init"
  by (auto simp: sock_inv_def socket_init_def core_inv_init MAX_TCPIP_SOCKET_HANDLES_def entry_wf_def)

lemma all_closed_init: "all_closed socket_init"
  by (auto simp: all_closed_def socket_init_def)

lemma sock_inv_core: "sock_inv s \<Longrightarrow> core_inv (core s)"
  by (simp add: sock_inv_def)

lemma sock_inv_set_core [simp]:
  "sock_inv s \<Longrightarrow> core_inv k \<Longrightarrow> sock_inv (s\<lparr>core := k\<rparr>)"
  "all_closed (s\<lparr>core := k\<rparr>) = all_closed s"
  by (simp_all add: sock_inv_def all_closed_def)

lemma set_update_all: "\<forall>x \<in> set xs. P x \<Longrightarrow> P y \<Longrightarrow> \<forall>x \<in> set (xs[i := y]). P x"
  by (auto dest!: set_update_subset_insert [THEN subsetD])

lemma sock_inv_set_entry [simp]:
  "sock_inv s \<Longrightarrow> entry_wf c \<Longrightarrow> sock_inv (s\<lparr>TcpIp_Socket_Conn := (TcpIp_Socket_Conn s)[i := c]\<rparr>)"
  unfolding sock_inv_def using set_update_all [of "TcpIp_Socket_Conn s" entry_wf c i] by simp

lemma sock_inv_set_both [simp]:
  "sock_inv s \<Longrightarrow> core_inv k \<Longrightarrow> entry_wf c \<Longrightarrow>
     sock_inv (s\<lparr>core := k, TcpIp_Socket_Conn := (TcpIp_Socket_Conn s)[i := c]\<rparr>)"
  using sock_inv_set_entry [of "s\<lparr>core := k\<rparr>" c i] by simp

lemma all_closed_set_entry [simp]:
  "all_closed s \<Longrightarrow> TcpState c = TCPIP_CLOSED \<Longrightarrow>
     all_closed (s\<lparr>TcpIp_Socket_Conn := (TcpIp_Socket_Conn s)[i := c]\<rparr>)"
  unfolding all_closed_def
  using set_update_all [of "TcpIp_Socket_Conn s" "\<lambda>c. TcpState c = TCPIP_CLOSED" c i] by simp

lemma entry_wf_state [simp]: "entry_wf (c\<lparr>TcpState := x\<rparr>) = entry_wf c"
  by (simp add: entry_wf_def)

lemma sock_inv_valid: "sock_inv s \<Longrightarrow> \<not> fd_rejected fd \<Longrightarrow> valid_fd fd s \<or> fd = 512"
  by (auto simp: sock_inv_def valid_fd_def fd_rejected_def MAX_TCPIP_SOCKET_HANDLES_def)

lemma entry_wf_at: "sock_inv s \<Longrightarrow> valid_fd fd s \<Longrightarrow> entry_wf (TcpIp_Socket_Conn s ! nat fd)"
  using nth_mem [of "nat fd" "TcpIp_Socket_Conn s"] by (auto simp: sock_inv_def valid_fd_def)

lemma closed_at: "all_closed s \<Longrightarrow> valid_fd fd s \<Longrightarrow> fd_state fd s = TCPIP_CLOSED"
  using nth_mem [of "nat fd" "TcpIp_Socket_Conn s"] by (simp add: all_closed_def)

text \<open>Case analysis on a descriptor: refused, one past the end, or an entry of the table.\<close>

lemma fd_cases:
  assumes "sock_inv s"
  obtains (refused) "fd_rejected fd" | (past_end) "fd = 512" "length (TcpIp_Socket_Conn s) = 512"
  | (valid) "valid_fd fd s"
  using assms sock_inv_valid [of s fd] by (auto simp: sock_inv_def)

text \<open>What a guarded operation ensures, it has to ensure only on the entries of the table.\<close>

context fd_guarded
begin

lemma ensures_cases:
  assumes "sock_inv s" and "fd_rejected fd \<Longrightarrow> P (refusal s)"
    and "valid_fd fd s \<Longrightarrow> ensures (operation fd s) P"
  shows "ensures (operation fd s) P"
  using assms(1)
proof (cases rule: fd_cases [of s fd])
  case refused
  with assms(2) show ?thesis by (simp add: rejected)
next
  case past_end
  then show ?thesis by (simp add: past_end_faults)
qed (rule assms(3))

end

subsection \<open>What the operations compute on an entry of the table\<close>

lemma Init_valid:
  "valid_fd fd s \<Longrightarrow> TcpIp_Socket_Init fd s =
     rbind (int_inc (TcpIp_No_Socket_Conn s)) (\<lambda>n. Inr (E_OK,
       s\<lparr>TcpIp_Socket_Conn := (TcpIp_Socket_Conn s)[nat fd := (TcpIp_Socket_Conn s ! nat fd)
           \<lparr>SocketFd := fd, SocketId := of_int fd, TcpState := TCPIP_CLOSED\<rparr>],
         TcpIp_No_Socket_Conn := n\<rparr>))"
  by (simp add: TcpIp_Socket_Init_def)

lemma Bind_valid:
  "valid_fd fd s \<Longrightarrow> TcpIp_Socket_Bind env fd port s =
     (if fd_state fd s = TCPIP_CLOSED then
        rbind (TcpIp_Bind env (SocketId (TcpIp_Socket_Conn s ! nat fd)) 0 (Some port) (core s))
          (\<lambda>(retval, k). Inr (retval, s\<lparr>core := k\<rparr>))
      else Inr (E_NOK, s))"
  by (simp add: TcpIp_Socket_Bind_def)

lemma Listen_valid:
  "valid_fd fd s \<Longrightarrow> TcpIp_Socket_Listen env fd s =
     (if fd_state fd s = TCPIP_BIND \<or> fd_state fd s = TCPIP_LISTEN then
        rbind (TcpIp_TcpListen env (SocketId (TcpIp_Socket_Conn s ! nat fd)) 0 (core s))
          (\<lambda>(retval, k). Inr (retval, s\<lparr>core := k, TcpIp_Socket_Conn := (TcpIp_Socket_Conn s)[nat fd :=
             (TcpIp_Socket_Conn s ! nat fd)\<lparr>TcpState :=
                (if retval = E_OK then TCPIP_ACCEPT else TCPIP_LISTEN)\<rparr>]\<rparr>))
      else Inr (E_NOK, s))"
  by (simp add: TcpIp_Socket_Listen_def Let_def cong: rbind_cong)

lemma Accept_valid:
  "valid_fd fd s \<Longrightarrow> TcpIp_Socket_Accept fd s =
     Inr (if fd_state fd s = TCPIP_ACCEPT then E_OK else E_NOK, s)"
  by (auto simp: TcpIp_Socket_Accept_def OS_WaitEvent_Interruptable_def)

lemma Recv_valid:
  "valid_fd fd s \<Longrightarrow> TcpIp_Socket_Recv env fd data len s =
     (if TCPIP_ACCEPT \<le> fd_state fd s then
        rbind (TcpIp_recv env data (core s)) (\<lambda>(n, d, k). Inr (n, d, s\<lparr>core := k\<rparr>))
      else Inr (0, data, s))"
  by (simp add: TcpIp_Socket_Recv_def)

lemma Send_valid:
  "valid_fd fd s \<Longrightarrow> TcpIp_Socket_Send env fd data len s =
     (if TCPIP_ACCEPT \<le> fd_state fd s \<and> len > 0 then
        rbind (TcpIp_send env data (ucast len) (core s)) (\<lambda>(n, k). Inr (n, s\<lparr>core := k\<rparr>))
      else Inr (0, s))"
  by (simp add: TcpIp_Socket_Send_def)

subsection \<open>The invariant of the table is kept\<close>

named_theorems sock_keeps \<open>each operation on sockets keeps the invariant\<close>

lemma Init_keeps [sock_keeps]: "sock_inv s \<Longrightarrow> ensures (TcpIp_Socket_Init fd s) (\<lambda>(r, s'). sock_inv s')"
  by (rule fd_init.ensures_cases)
     (auto simp: Init_valid int_inc_def sock_inv_def entry_wf_def valid_fd_def
        dest!: set_update_subset_insert [THEN subsetD] intro!: ensuresI split: if_splits)

lemma Bind_keeps_table [sock_keeps]:
  "sock_inv s \<Longrightarrow> ensures (TcpIp_Socket_Bind env fd port s) (\<lambda>(r, s'). sock_inv s')"
  by (rule fd_bind.ensures_cases)
     (auto simp: Bind_valid sock_inv_core intro!: ensures_mono [OF Bind_keeps])

lemma Listen_keeps_table [sock_keeps]:
  "sock_inv s \<Longrightarrow> ensures (TcpIp_Socket_Listen env fd s) (\<lambda>(r, s'). sock_inv s')"
  by (rule fd_listen.ensures_cases)
     (auto simp: Listen_valid sock_inv_core entry_wf_at intro!: ensures_mono [OF Listen_keeps])

lemma Accept_keeps [sock_keeps]: "sock_inv s \<Longrightarrow> ensures (TcpIp_Socket_Accept fd s) (\<lambda>(r, s'). sock_inv s')"
  by (rule fd_accept.ensures_cases) (simp_all add: Accept_valid)

lemma Recv_keeps [sock_keeps]:
  "sock_inv s \<Longrightarrow> ensures (TcpIp_Socket_Recv env fd data len s) (\<lambda>(n, d, s'). sock_inv s')"
  by (rule fd_recv.ensures_cases)
     (auto simp: Recv_valid sock_inv_core intro!: ensures_mono [OF recv_keeps])

lemma Send_keeps [sock_keeps]:
  "sock_inv s \<Longrightarrow> ensures (TcpIp_Socket_Send env fd data len s) (\<lambda>(n, s'). sock_inv s')"
  by (rule fd_send.ensures_cases)
     (auto simp: Send_valid sock_inv_core intro!: ensures_mono [OF send_keeps])

lemma main_loop_keeps: "sock_inv s \<Longrightarrow> ensures (main_loop f i con s) (\<lambda>(r, s'). sock_inv s')"
proof (induction f i con s rule: main_loop.induct)
  case (1 f i con s)
  show ?case
  proof (cases "i con < TcpIp_No_Socket_Conn s \<and> con < length (TcpIp_Socket_Conn s)")
    case True
    let ?c = "(TcpIp_Socket_Conn s ! con)\<lparr>TcpState := f (SocketId (TcpIp_Socket_Conn s ! con))\<rparr>"
    from True "1.prems" have "entry_wf (TcpIp_Socket_Conn s ! con)"
      by (simp add: sock_inv_def)
    with True "1.prems" "1.IH" [OF _ _ refl refl refl refl] show ?thesis
      by (subst main_loop.simps) (simp add: Let_def OS_WaitEvent_Wakeup_def)
  next
    case False
    with "1.prems" show ?thesis by (subst main_loop.simps) auto
  qed
qed

lemma Main_Loop_keeps [sock_keeps]:
  "sock_inv s \<Longrightarrow> ensures (TcpIp_Socket_Main_Loop f i s) (\<lambda>(r, s'). sock_inv s')"
  by (simp add: TcpIp_Socket_Main_Loop_def main_loop_keeps)

subsection \<open>A table where every entry is closed\<close>

named_theorems closed_keeps \<open>operations on a table where every entry is closed\<close>

lemma closed_valid:
  assumes "all_closed s" and "valid_fd fd s"
  shows "TcpIp_Socket_Listen env fd s = Inr (E_NOK, s)" "TcpIp_Socket_Accept fd s = Inr (E_NOK, s)"
    "TcpIp_Socket_Recv env fd data len s = Inr (0, data, s)"
    "TcpIp_Socket_Send env fd data len s = Inr (0, s)"
  using closed_at [OF assms] assms(2)
  by (simp_all add: Listen_valid Accept_valid Recv_valid Send_valid conn_order)

lemma Init_closed [closed_keeps]:
  "sock_inv s \<Longrightarrow> all_closed s \<Longrightarrow> ensures (TcpIp_Socket_Init fd s) (\<lambda>(r, s'). all_closed s')"
  by (rule fd_init.ensures_cases)
     (auto simp: Init_valid int_inc_def all_closed_def
        dest!: set_update_subset_insert [THEN subsetD] intro!: ensuresI split: if_splits)

lemma Bind_closed [closed_keeps]:
  "sock_inv s \<Longrightarrow> all_closed s \<Longrightarrow> ensures (TcpIp_Socket_Bind env fd port s) (\<lambda>(r, s'). all_closed s')"
  by (rule fd_bind.ensures_cases) (auto simp: Bind_valid intro!: ensuresI)

lemma Listen_closed [closed_keeps]:
  "sock_inv s \<Longrightarrow> all_closed s \<Longrightarrow> ensures (TcpIp_Socket_Listen env fd s) (\<lambda>(r, s'). all_closed s')"
  by (rule fd_listen.ensures_cases) (simp_all add: closed_valid)

lemma Accept_closed [closed_keeps]:
  "sock_inv s \<Longrightarrow> all_closed s \<Longrightarrow> ensures (TcpIp_Socket_Accept fd s) (\<lambda>(r, s'). all_closed s')"
  by (rule fd_accept.ensures_cases) (simp_all add: closed_valid)

lemma Recv_closed [closed_keeps]:
  "sock_inv s \<Longrightarrow> all_closed s \<Longrightarrow>
     ensures (TcpIp_Socket_Recv env fd data len s) (\<lambda>(n, d, s'). all_closed s')"
  by (rule fd_recv.ensures_cases) (simp_all add: closed_valid)

lemma Send_closed [closed_keeps]:
  "sock_inv s \<Longrightarrow> all_closed s \<Longrightarrow>
     ensures (TcpIp_Socket_Send env fd data len s) (\<lambda>(n, s'). all_closed s')"
  by (rule fd_send.ensures_cases) (simp_all add: closed_valid)

subsection \<open>The poll loop\<close>

text \<open>The table after the entries from \<open>con\<close> up to \<open>n\<close> were polled.\<close>

definition polled :: "(u16 \<Rightarrow> TcpIp_ConnState) \<Rightarrow> nat \<Rightarrow> nat \<Rightarrow> TcpIp_Socket list \<Rightarrow> TcpIp_Socket list"
  where
  "polled f con n tab = map (\<lambda>k. if con \<le> k \<and> k < n then (tab ! k)\<lparr>TcpState := f (SocketId (tab ! k))\<rparr>
     else tab ! k) [0..<length tab]"

lemma polled_nth:
  "k < length tab \<Longrightarrow> polled f con n tab ! k =
     (if con \<le> k \<and> k < n then (tab ! k)\<lparr>TcpState := f (SocketId (tab ! k))\<rparr> else tab ! k)"
  by (simp add: polled_def)

lemma length_polled [simp]: "length (polled f con n tab) = length tab"
  by (simp add: polled_def)

lemma polled_done: "n \<le> con \<Longrightarrow> polled f con n tab = tab"
  by (rule nth_equalityI) (auto simp: polled_nth)

lemma polled_step:
  "con < n \<Longrightarrow> con < length tab \<Longrightarrow>
     polled f (con + 1) n (tab[con := (tab ! con)\<lparr>TcpState := f (SocketId (tab ! con))\<rparr>]) =
       polled f con n tab"
  by (rule nth_equalityI) (auto simp: polled_nth nth_list_update)

lemma main_loop_counts:
  assumes "nat (TcpIp_No_Socket_Conn s) \<le> length (TcpIp_Socket_Conn s)"
  shows "main_loop f int con s = Inr (E_OK, s\<lparr>TcpIp_Socket_Conn :=
    polled f con (nat (TcpIp_No_Socket_Conn s)) (TcpIp_Socket_Conn s)\<rparr>)"
  using assms
proof (induction "nat (TcpIp_No_Socket_Conn s) - con" arbitrary: con s)
  case 0
  then have "\<not> int con < TcpIp_No_Socket_Conn s" by linarith
  with 0 show ?case
    by (simp add: main_loop.simps [of f int con s] polled_done)
next
  case (Suc d)
  then have con: "int con < TcpIp_No_Socket_Conn s" "con < length (TcpIp_Socket_Conn s)" by simp_all
  let ?c = "(TcpIp_Socket_Conn s ! con)\<lparr>TcpState := f (SocketId (TcpIp_Socket_Conn s ! con))\<rparr>"
  have "main_loop f int con s =
      main_loop f int (con + 1) (s\<lparr>TcpIp_Socket_Conn := (TcpIp_Socket_Conn s)[con := ?c]\<rparr>)"
    using con by (subst main_loop.simps) (simp add: OS_WaitEvent_Wakeup_def Let_def)
  also have "\<dots> = Inr (E_OK, s\<lparr>TcpIp_Socket_Conn := polled f (con + 1)
      (nat (TcpIp_No_Socket_Conn s)) ((TcpIp_Socket_Conn s)[con := ?c])\<rparr>)"
    using Suc.hyps(2) Suc.prems by (subst Suc.hyps(1)) simp_all
  finally show ?case using con by (simp only: polled_step zless_nat_eq_int_zless)
qed

text \<open>With a condition that stays true the loop leaves the table.\<close>

lemma main_loop_runs_out:
  assumes "\<And>k. k \<le> length (TcpIp_Socket_Conn s) \<Longrightarrow> i_at k < TcpIp_No_Socket_Conn s"
    and "con \<le> length (TcpIp_Socket_Conn s)"
  shows "main_loop f i_at con s = Inl OutOfBounds"
  using assms
proof (induction "length (TcpIp_Socket_Conn s) - con" arbitrary: con s)
  case 0
  then show ?case by (simp add: main_loop.simps [of f i_at con s])
next
  case (Suc d)
  let ?c = "(TcpIp_Socket_Conn s ! con)\<lparr>TcpState := f (SocketId (TcpIp_Socket_Conn s ! con))\<rparr>"
  have con: "con < length (TcpIp_Socket_Conn s)" using Suc.hyps(2) by linarith
  then have "main_loop f i_at con s =
      main_loop f i_at (con + 1) (s\<lparr>TcpIp_Socket_Conn := (TcpIp_Socket_Conn s)[con := ?c]\<rparr>)"
    using Suc.prems(1) [of con] by (subst main_loop.simps) (simp add: OS_WaitEvent_Wakeup_def Let_def)
  also have "\<dots> = Inl OutOfBounds"
    using Suc.prems Suc.hyps(2) by (intro Suc.hyps(1)) simp_all
  finally show ?case .
qed

text \<open>The spin loop of the accept condition ends at the first read that sees the state.\<close>

lemma accept_spin_reaches:
  "k \<le> m \<Longrightarrow> obs m = TCPIP_ACCEPT \<Longrightarrow> \<exists>r. accept_spin obs k = Some r"
proof (induction "m - k" arbitrary: k)
  case 0
  then show ?case by (simp add: accept_spin.simps)
next
  case (Suc d)
  then have "\<exists>r. accept_spin obs (k + 1) = Some r" by (intro Suc.hyps(1)) simp_all
  then show ?case by (cases "obs k = TCPIP_ACCEPT") (simp_all add: accept_spin.simps [of obs k])
qed

lemma accept_spin_sound: "accept_spin obs k = Some r \<Longrightarrow> obs r = TCPIP_ACCEPT"
proof (rule accept_spin.raw_induct [where P = "\<lambda>obs k r. obs r = TCPIP_ACCEPT"])
  fix spin :: "(nat \<Rightarrow> TcpIp_ConnState) \<Rightarrow> nat \<Rightarrow> nat option" and obs k r
  assume "\<And>obs k r. spin obs k = Some r \<Longrightarrow> obs r = TCPIP_ACCEPT"
    and "(if TCPIP_ACCEPT \<noteq> obs k then spin obs (k + 1) else Some k) = Some r"
  then show "obs r = TCPIP_ACCEPT" by (simp split: if_splits)
qed

subsection \<open>Properties\<close>

text \<open>C39: descriptor 512 passes the range tests but the table has entries 0 to 511: every
  socket operation on it accesses the table out of bounds.\<close>
theorem descriptor_512_out_of_bounds:
  assumes "length (TcpIp_Socket_Conn s) = 512"
  shows "TcpIp_Socket_Init 512 s = Inl OutOfBounds \<and>
    TcpIp_Socket_Bind env 512 port s = Inl OutOfBounds \<and>
    TcpIp_Socket_Listen env 512 s = Inl OutOfBounds \<and>
    TcpIp_Socket_Accept 512 s = Inl OutOfBounds \<and>
    TcpIp_Socket_Recv env 512 data len s = Inl OutOfBounds \<and>
    TcpIp_Socket_Send env 512 data len s = Inl OutOfBounds"
  using assms
  by (simp add: fd_init.past_end_faults fd_bind.past_end_faults fd_listen.past_end_faults
      fd_accept.past_end_faults fd_recv.past_end_faults fd_send.past_end_faults)

theorem descriptor_512_out_of_bounds_witness:
  "TcpIp_Socket_Init 512 socket_init = Inl OutOfBounds"
  using descriptor_512_out_of_bounds [of socket_init]
  by (simp add: socket_init_def MAX_TCPIP_SOCKET_HANDLES_def)

text \<open>Descriptors below 0 and above 512 are refused by every socket operation without any
  effect: the first four return an error, while receiving and sending return 0, the same value as
  a receive that finds nothing and as a successful send.\<close>
lemma descriptor_outside_refused:
  assumes "fd < 0 \<or> 512 < fd"
  shows "TcpIp_Socket_Init fd s = Inr (E_NOK, s) \<and>
    TcpIp_Socket_Bind env fd port s = Inr (E_NOK, s) \<and>
    TcpIp_Socket_Listen env fd s = Inr (E_NOK, s) \<and>
    TcpIp_Socket_Accept fd s = Inr (E_NOK, s) \<and>
    TcpIp_Socket_Recv env fd data len s = Inr (0, data, s) \<and>
    TcpIp_Socket_Send env fd data len s = Inr (0, s)"
  using assms
  by (simp add: fd_init.outside_refused fd_bind.outside_refused fd_listen.outside_refused
      fd_accept.outside_refused fd_recv.outside_refused fd_send.outside_refused)

text \<open>Listening in the bound or listening state, on a connection lwIP has not given back: the
  call succeeds exactly if the connection's state value is below that of the listening state,
  and moves the entry to the accept state then and to the listening state otherwise; it touches
  no other entry, and an accept right afterwards succeeds although no client has connected.\<close>
theorem listen_then_accept_succeeds:
  assumes "valid_fd fd s" and "TcpState (TcpIp_Socket_Conn s ! nat fd) \<in> {TCPIP_BIND, TCPIP_LISTEN}"
    and "tcpip_raw_pcb (core s) = Some a" and "pcb_state_at env (tr (core s)) a = Some st"
  shows "returns (TcpIp_Socket_Listen env fd s) (\<lambda>(r, s'). r = (if st < 2 then E_OK else E_NOT_OK) \<and>
    TcpState (TcpIp_Socket_Conn s' ! nat fd) = (if st < 2 then TCPIP_ACCEPT else TCPIP_LISTEN) \<and>
    (\<forall>k. k \<noteq> nat fd \<longrightarrow> TcpIp_Socket_Conn s' ! k = TcpIp_Socket_Conn s ! k) \<and>
    TcpIp_Socket_Accept fd s' = Inr (if st < 2 then E_OK else E_NOK, s'))"
proof -
  let ?c = "TcpIp_Socket_Conn s ! nat fd"
  have "TcpIp_Socket_Listen env fd s =
      rbind (TcpIp_TcpListen env (SocketId ?c) 0 (core s)) (\<lambda>(r, k).
        Inr (r, s\<lparr>core := k, TcpIp_Socket_Conn := (TcpIp_Socket_Conn s)[nat fd :=
          ?c\<lparr>TcpState := (if r = E_OK then TCPIP_ACCEPT else TCPIP_LISTEN)\<rparr>]\<rparr>))"
    using assms(1,2) by (simp add: Listen_valid)
  moreover have "valid_fd fd (s\<lparr>core := k, TcpIp_Socket_Conn := (TcpIp_Socket_Conn s)[nat fd := c]\<rparr>)"
    for k c
    using assms(1) by (simp add: valid_fd_def)
  moreover obtain k where "TcpIp_TcpListen env (SocketId ?c) 0 (core s) =
      Inr (if st < 2 then E_OK else E_NOT_OK, k)"
    using assms(3,4) by (cases "st < 2") (simp_all add: TcpIp_TcpListen_def Let_def call_ptr_def)
  ultimately show ?thesis using assms(1)
    by (simp add: Accept_valid)
qed

theorem listen_then_accept_succeeds_witness:
  "returns (TcpIp_Socket_Listen (demo_env\<lparr>pcb_state_at := (\<lambda>t a. Some 0)\<rparr>) 3
      (socket_init\<lparr>core := tcpip_init\<lparr>tcpip_raw_pcb := Some 1\<rparr>, TcpIp_Socket_Conn :=
      (TcpIp_Socket_Conn socket_init)[3 := \<lparr>SocketFd = 3, SocketId = 3, TcpState = TCPIP_BIND,
         WaitEvent = no_event\<rparr>]\<rparr>)) (\<lambda>(r, s'). r = E_OK \<and> TcpIp_Socket_Accept 3 s' = Inr (E_OK, s'))"
proof -
  let ?s = "socket_init\<lparr>core := tcpip_init\<lparr>tcpip_raw_pcb := Some 1\<rparr>, TcpIp_Socket_Conn :=
      (TcpIp_Socket_Conn socket_init)[3 := \<lparr>SocketFd = 3, SocketId = 3, TcpState = TCPIP_BIND,
         WaitEvent = no_event\<rparr>]\<rparr>"
  have s: "valid_fd 3 ?s" "TcpState (TcpIp_Socket_Conn ?s ! nat 3) \<in> {TCPIP_BIND, TCPIP_LISTEN}"
    by (simp_all add: valid_fd_def socket_init_def MAX_TCPIP_SOCKET_HANDLES_def)
  show ?thesis
    using listen_then_accept_succeeds [OF s, of 1 "demo_env\<lparr>pcb_state_at := (\<lambda>t a. Some 0)\<rparr>" 0]
    by (auto elim: returns_mono)
qed

text \<open>C38: the polling condition of accept returns if and only if some read of the socket's state
  sees the accept state; on a NULL argument it returns an error at once. Where the state never
  becomes the accept state, the loop never ends.\<close>
theorem accept_condition_returns_iff:
  "TcpIp_Socket_Accept_Condition data =
     (case data of
        None \<Rightarrow> Some E_NOK
      | Some obs \<Rightarrow> if \<exists>k. obs k = TCPIP_ACCEPT then Some E_OK else None)"
proof (cases data)
  case None
  then show ?thesis by (simp add: TcpIp_Socket_Accept_Condition_def)
next
  case (Some obs)
  show ?thesis
  proof (cases "\<exists>k. obs k = TCPIP_ACCEPT")
    case True
    then obtain r where "accept_spin obs 0 = Some r" using accept_spin_reaches [of 0] by blast
    with True Some show ?thesis by (simp add: TcpIp_Socket_Accept_Condition_def)
  next
    case False
    then have "accept_spin obs 0 = None" using accept_spin_sound [of obs 0] by fastforce
    with False Some show ?thesis by (simp add: TcpIp_Socket_Accept_Condition_def)
  qed
qed

text \<open>Sending a buffer as long as it says through a socket that is past accept truncates the 32-bit length to 16 bits:
  when the stack takes the write, the length handed over is the length modulo 65536, and the
  result is 0, not the number of bytes.\<close>
theorem socket_send_truncates_length:
  assumes "valid_fd fd s" and "TCPIP_ACCEPT \<le> TcpState (TcpIp_Socket_Conn s ! nat fd)" and "0 < len"
    and "\<And>t. ans_err env t = ERR_OK" and "unat len \<le> length bytes"
  shows "returns (TcpIp_Socket_Send env fd (Some bytes) len s) (\<lambda>(n, s'). n = 0 \<and>
    (\<exists>k. tr (core s') = tr (core s) @ [Tcp_write (tcpip_raw_pcb (core s)) bytes k 1] \<and>
       unat k = unat len mod 65536))"
proof -
  have "unat len mod 65536 \<le> length bytes"
    using assms(5) by (rule order_trans [OF mod_less_eq_dividend])
  with assms show ?thesis
    by (simp add: Send_valid TcpIp_send_def call_err_def Let_def unsigned_ucast_eq take_bit_eq_mod not_less)
qed

lemma accepted_valid:
  "valid_fd 3 (socket_init\<lparr>TcpIp_Socket_Conn := (TcpIp_Socket_Conn socket_init)[3 := c]\<rparr>)"
  "TcpIp_Socket_Conn (socket_init\<lparr>TcpIp_Socket_Conn := (TcpIp_Socket_Conn socket_init)[3 := c]\<rparr>) ! 3 = c"
  by (simp_all add: valid_fd_def socket_init_def MAX_TCPIP_SOCKET_HANDLES_def)

theorem socket_send_truncates_length_witness:
  "\<exists>s'. TcpIp_Socket_Send demo_env 3 (Some (replicate 65536 1)) 65536 (socket_init\<lparr>TcpIp_Socket_Conn :=
      (TcpIp_Socket_Conn socket_init)[3 := \<lparr>SocketFd = 3, SocketId = 3, TcpState = TCPIP_ACCEPT,
         WaitEvent = no_event\<rparr>]\<rparr>) = Inr (0, s')"
proof -
  let ?s = "socket_init\<lparr>TcpIp_Socket_Conn := (TcpIp_Socket_Conn socket_init)[3 := \<lparr>SocketFd = 3,
      SocketId = 3, TcpState = TCPIP_ACCEPT, WaitEvent = no_event\<rparr>]\<rparr>"
  have "returns (TcpIp_Socket_Send demo_env 3 (Some (replicate 65536 1)) 65536 ?s) (\<lambda>(n, s'). n = 0 \<and>
    (\<exists>k. tr (core s') = tr (core ?s) @ [Tcp_write (tcpip_raw_pcb (core ?s)) (replicate 65536 1) k 1] \<and>
       unat k = unat (65536 :: u32) mod 65536))"
    by (rule socket_send_truncates_length)
       (simp_all add: accepted_valid(1) demo_env_def, simp_all add: socket_init_def
          MAX_TCPIP_SOCKET_HANDLES_def)
  then show ?thesis by (auto simp: returns_iff)
qed

text \<open>The poll loop, with the condition's undeclared variable read as the loop counter: it
  refreshes the state of the first \<open>TcpIp_No_Socket_Conn\<close> entries and no other, and leaves
  the table out of bounds if the counter exceeds the table.\<close>
theorem poll_loop_with_counter:
  assumes "length (TcpIp_Socket_Conn s) = 512"
  shows "if TcpIp_No_Socket_Conn s \<le> 512
    then returns (TcpIp_Socket_Main_Loop f int s) (\<lambda>(r, s'). r = E_OK \<and> core s' = core s \<and>
      length (TcpIp_Socket_Conn s') = 512 \<and>
      (\<forall>k<512. TcpIp_Socket_Conn s' ! k =
         (let c = TcpIp_Socket_Conn s ! k
          in if int k < TcpIp_No_Socket_Conn s then c\<lparr>TcpState := f (SocketId c)\<rparr> else c)))
    else TcpIp_Socket_Main_Loop f int s = Inl OutOfBounds"
proof (cases "TcpIp_No_Socket_Conn s \<le> 512")
  case True
  with assms show ?thesis
    by (simp add: TcpIp_Socket_Main_Loop_def main_loop_counts polled_nth Let_def)
next
  case False
  with assms show ?thesis
    by (simp add: TcpIp_Socket_Main_Loop_def main_loop_runs_out)
qed

theorem poll_loop_with_counter_witness:
  "returns (TcpIp_Socket_Main_Loop (\<lambda>i. TCPIP_ACCEPT) int
      (socket_init\<lparr>TcpIp_No_Socket_Conn := 1\<rparr>)) (\<lambda>(r, s').
    TcpState (TcpIp_Socket_Conn s' ! 0) = TCPIP_ACCEPT \<and>
    TcpState (TcpIp_Socket_Conn s' ! 1) = TCPIP_CLOSED)"
  using poll_loop_with_counter [of "socket_init\<lparr>TcpIp_No_Socket_Conn := 1\<rparr>" "\<lambda>i. TCPIP_ACCEPT"]
  by (auto simp: socket_init_def MAX_TCPIP_SOCKET_HANDLES_def Let_def elim!: returns_mono)

text \<open>The poll loop as written tests a variable it never changes. If that variable is below
  the number of connections the loop never stops before it has left the table, whatever the
  number of connections; otherwise it polls nothing.\<close>
lemma poll_loop_with_constant:
  "TcpIp_Socket_Main_Loop f (\<lambda>_. i) s =
     (if i < TcpIp_No_Socket_Conn s then Inl OutOfBounds else Inr (E_OK, s))"
proof (cases "i < TcpIp_No_Socket_Conn s")
  case True
  then show ?thesis by (simp add: TcpIp_Socket_Main_Loop_def main_loop_runs_out)
next
  case False
  then show ?thesis by (simp add: TcpIp_Socket_Main_Loop_def main_loop.simps [of f "\<lambda>_. i" 0])
qed

end
