(* ===== verification/Socket_Api.thy ===== *)
theory Socket_Api
  imports Socket_Ext
begin

text \<open>
  \<open>src/socket.c\<close>: the POSIX-like calls. The constants carry the suffix \<open>_call\<close>, since
  some of the C names are names of the library.
\<close>

definition socket_call :: "int \<Rightarrow> socket_state \<Rightarrow> (int \<times> socket_state) result" where
  "socket_call sockfd s =
     rbind (TcpIp_Socket_Init sockfd s) (\<lambda>(r, s). Inr (if E_OK = r then 0 else -1, s))"

definition bind_call :: "lwip_env \<Rightarrow> int \<Rightarrow> u16 \<Rightarrow> socket_state \<Rightarrow> (int \<times> socket_state) result" where
  "bind_call env sockfd port s =
     rbind (TcpIp_Socket_Bind env sockfd port s) (\<lambda>(r, s). Inr (if E_OK = r then 0 else -1, s))"

definition listen_call :: "lwip_env \<Rightarrow> int \<Rightarrow> socket_state \<Rightarrow> (int \<times> socket_state) result" where
  "listen_call env sockfd s =
     rbind (TcpIp_Socket_Listen env sockfd s) (\<lambda>(r, s). Inr (if E_OK = r then 0 else -1, s))"

definition accept_call :: "int \<Rightarrow> socket_state \<Rightarrow> (int \<times> socket_state) result" where
  "accept_call sockfd s =
     rbind (TcpIp_Socket_Accept sockfd s) (\<lambda>(r, s). Inr (if E_OK = r then 0 else -1, s))"

definition recv_call :: "lwip_env \<Rightarrow> int \<Rightarrow> u8 list option \<Rightarrow> u32 \<Rightarrow> socket_state
    \<Rightarrow> (int \<times> u8 list option \<times> socket_state) result" where
  "recv_call env sockfd data len s = TcpIp_Socket_Recv env sockfd data len s"

definition send_call :: "lwip_env \<Rightarrow> int \<Rightarrow> u8 list option \<Rightarrow> u32 \<Rightarrow> socket_state
    \<Rightarrow> (int \<times> socket_state) result" where
  "send_call env sockfd data len s = TcpIp_Socket_Send env sockfd data len s"

end
