(* ===== verification/System.thy ===== *)
theory System
  imports Lwip_Int Socket_Api
begin

text \<open>
  The whole module as its users see it: one operation for every function of
  \<open>src/api/TcpIp.h\<close>, \<open>src/tcpip_extensions.h\<close> and \<open>src/socket.h\<close> that can change
  its state, the step relation of the module, and runs of several calls. A step is one call
  that comes back; what lwIP calls back while it handles a call is part of the call.
\<close>

subsection \<open>Operations and steps\<close>

datatype api_op =
    Op_Init
  | Op_MainFunction
  | Op_Close u16 bool
  | Op_Bind u16 u8 "u16 option"
  | Op_TcpListen u16 u16
  | Op_TcpConnect u16 "TcpIp_SockAddrType option"
  | Op_recv "u8 list option"
  | Op_send "u8 list option" u16
  | Op_socket int
  | Op_bind int u16
  | Op_listen int
  | Op_accept int
  | Op_socket_recv int "u8 list option" u32
  | Op_socket_send int "u8 list option" u32
  | Op_Main_Loop "u16 \<Rightarrow> TcpIp_ConnState" "nat \<Rightarrow> int"

definition on_core :: "(tcpip_state \<Rightarrow> tcpip_state result) \<Rightarrow> socket_state \<Rightarrow> socket_state result" where
  "on_core f s = rbind (f (core s)) (\<lambda>k. Inr (s\<lparr>core := k\<rparr>))"

definition api_call :: "lwip_env \<Rightarrow> api_op \<Rightarrow> socket_state \<Rightarrow> socket_state result" where
  "api_call env op s =
     (case op of
        Op_Init \<Rightarrow> on_core (TcpIp_Init env None) s
      | Op_MainFunction \<Rightarrow> on_core (TcpIp_MainFunction env) s
      | Op_Close i a \<Rightarrow> on_core (\<lambda>k. Inr (snd (TcpIp_Close i a k))) s
      | Op_Bind i a port \<Rightarrow> on_core (\<lambda>k. rbind (TcpIp_Bind env i a port k) (\<lambda>(r, k). Inr k)) s
      | Op_TcpListen i m \<Rightarrow> on_core (\<lambda>k. rbind (TcpIp_TcpListen env i m k) (\<lambda>(r, k). Inr k)) s
      | Op_TcpConnect i a \<Rightarrow> on_core (\<lambda>k. rbind (TcpIp_TcpConnect env i a k) (\<lambda>(r, k). Inr k)) s
      | Op_recv d \<Rightarrow> on_core (\<lambda>k. rbind (TcpIp_recv env d k) (\<lambda>(r, d, k). Inr k)) s
      | Op_send d n \<Rightarrow> on_core (\<lambda>k. rbind (TcpIp_send env d n k) (\<lambda>(r, k). Inr k)) s
      | Op_socket fd \<Rightarrow> rbind (socket_call fd s) (\<lambda>(r, s). Inr s)
      | Op_bind fd port \<Rightarrow> rbind (bind_call env fd port s) (\<lambda>(r, s). Inr s)
      | Op_listen fd \<Rightarrow> rbind (listen_call env fd s) (\<lambda>(r, s). Inr s)
      | Op_accept fd \<Rightarrow> rbind (accept_call fd s) (\<lambda>(r, s). Inr s)
      | Op_socket_recv fd d n \<Rightarrow> rbind (recv_call env fd d n s) (\<lambda>(r, d, s). Inr s)
      | Op_socket_send fd d n \<Rightarrow> rbind (send_call env fd d n s) (\<lambda>(r, s). Inr s)
      | Op_Main_Loop f i \<Rightarrow> rbind (TcpIp_Socket_Main_Loop f i s) (\<lambda>(r, s). Inr s))"

fun api_run :: "lwip_env \<Rightarrow> api_op list \<Rightarrow> socket_state \<Rightarrow> socket_state result" where
  "api_run env [] s = Inr s"
| "api_run env (op # ops) s = rbind (api_call env op s) (api_run env ops)"

inductive sys_step :: "lwip_env \<Rightarrow> socket_state \<Rightarrow> api_op \<Rightarrow> socket_state \<Rightarrow> bool" for env where
  sys_stepI: "api_call env op s = Inr s' \<Longrightarrow> sys_step env s op s'"

inductive_cases sys_stepE: "sys_step env s op s'"

text \<open>The same without the poll loop, which nothing in the sources calls.\<close>

definition is_poll :: "api_op \<Rightarrow> bool" where
  "is_poll op \<longleftrightarrow> (case op of Op_Main_Loop f i \<Rightarrow> True | _ \<Rightarrow> False)"

inductive app_step :: "lwip_env \<Rightarrow> socket_state \<Rightarrow> api_op \<Rightarrow> socket_state \<Rightarrow> bool" for env where
  app_stepI: "api_call env op s = Inr s' \<Longrightarrow> \<not> is_poll op \<Longrightarrow> app_step env s op s'"

inductive_cases app_stepE: "app_step env s op s'"

lemma api_run_append: "api_run env (xs @ ys) s = rbind (api_run env xs s) (api_run env ys)"
  by (induction xs arbitrary: s) (auto simp: rbind_assoc intro!: rbind_cong)

subsection \<open>Every call keeps the invariant\<close>

lemma on_core_ensures:
  "sock_inv s \<Longrightarrow> ensures (f (core s)) core_inv \<Longrightarrow> ensures (on_core f s) sock_inv"
  by (auto simp: on_core_def intro!: ensuresI)

lemma api_core_keeps:
  assumes "core_inv k"
  shows "ensures (TcpIp_Init env None k) core_inv" "ensures (TcpIp_MainFunction env k) core_inv"
    "ensures (rbind (TcpIp_Bind env i a port k) (\<lambda>(r, k). Inr k)) core_inv"
    "ensures (rbind (TcpIp_TcpListen env i m k) (\<lambda>(r, k). Inr k)) core_inv"
    "ensures (rbind (TcpIp_TcpConnect env i remote k) (\<lambda>(r, k). Inr k)) core_inv"
    "ensures (rbind (TcpIp_recv env d k) (\<lambda>(r, d, k). Inr k)) core_inv"
    "ensures (rbind (TcpIp_send env d n k) (\<lambda>(r, k). Inr k)) core_inv"
  using assms
  by (auto simp: TcpIp_Init_def TcpIp_MainFunction_def core_keeps
      intro!: ensures_mono [OF Bind_keeps] ensures_mono [OF Listen_keeps]
        ensures_mono [OF Connect_keeps] ensures_mono [OF recv_keeps] ensures_mono [OF send_keeps])

lemma api_sock_keeps:
  assumes "sock_inv s"
  shows "ensures (rbind (socket_call fd s) (\<lambda>(r, s). Inr s)) sock_inv"
    "ensures (rbind (bind_call env fd port s) (\<lambda>(r, s). Inr s)) sock_inv"
    "ensures (rbind (listen_call env fd s) (\<lambda>(r, s). Inr s)) sock_inv"
    "ensures (rbind (accept_call fd s) (\<lambda>(r, s). Inr s)) sock_inv"
    "ensures (rbind (recv_call env fd d n s) (\<lambda>(r, d, s). Inr s)) sock_inv"
    "ensures (rbind (send_call env fd d n s) (\<lambda>(r, s). Inr s)) sock_inv"
    "ensures (rbind (TcpIp_Socket_Main_Loop f i s) (\<lambda>(r, s). Inr s)) sock_inv"
  using assms
  by (auto simp: socket_call_def bind_call_def listen_call_def accept_call_def recv_call_def
      send_call_def intro!: sock_keeps [THEN ensures_mono])

lemma api_call_keeps: "sock_inv s \<Longrightarrow> ensures (api_call env op s) sock_inv"
  by (cases op) (simp_all add: api_call_def on_core_ensures sock_inv_core api_core_keeps
      api_sock_keeps Close_keeps del: ensures_rbind)

lemma api_run_keeps: "sock_inv s \<Longrightarrow> ensures (api_run env ops s) sock_inv"
  by (induction ops arbitrary: s) (auto intro: ensures_mono [OF api_call_keeps])

interpretation sys: step_invariant "sys_step env" socket_init sock_inv for env
  by unfold_locales (auto simp: sock_inv_init elim!: sys_stepE dest: ensuresD [OF api_call_keeps])

subsection \<open>Without the poll loop every socket stays closed\<close>

lemma on_core_closed: "all_closed s \<Longrightarrow> ensures (on_core f s) all_closed"
  by (auto simp: on_core_def intro!: ensuresI)

lemma api_sock_closed:
  assumes "sock_inv s" and "all_closed s"
  shows "ensures (rbind (socket_call fd s) (\<lambda>(r, s). Inr s)) all_closed"
    "ensures (rbind (bind_call env fd port s) (\<lambda>(r, s). Inr s)) all_closed"
    "ensures (rbind (listen_call env fd s) (\<lambda>(r, s). Inr s)) all_closed"
    "ensures (rbind (accept_call fd s) (\<lambda>(r, s). Inr s)) all_closed"
    "ensures (rbind (recv_call env fd d n s) (\<lambda>(r, d, s). Inr s)) all_closed"
    "ensures (rbind (send_call env fd d n s) (\<lambda>(r, s). Inr s)) all_closed"
  using assms
  by (auto simp: socket_call_def bind_call_def listen_call_def accept_call_def recv_call_def
      send_call_def intro!: closed_keeps [THEN ensures_mono])

lemma api_call_closed:
  "sock_inv s \<Longrightarrow> all_closed s \<Longrightarrow> \<not> is_poll op \<Longrightarrow>
     ensures (api_call env op s) all_closed"
  by (cases op) (simp_all add: api_call_def is_poll_def on_core_closed api_sock_closed del: ensures_rbind)

interpretation app: step_invariant "app_step env" socket_init "\<lambda>s. sock_inv s \<and> all_closed s" for env
  by unfold_locales (auto simp: sock_inv_init all_closed_init elim!: app_stepE
      dest: ensuresD [OF api_call_keeps] ensuresD [OF api_call_closed])

subsection \<open>Binding the same descriptor again\<close>

lemma bind_on_closed:
  assumes "all_closed s" and "valid_fd fd s" and "\<And>t. ans_err env t = ERR_OK"
    and "\<And>t. ans_ptr env t \<noteq> None"
  shows "returns (bind_call env fd port s) (\<lambda>(r, s'). r = 0 \<and> all_closed s' \<and> valid_fd fd s' \<and>
    (\<exists>p. tr (core s') = tr (core s) @ [Tcp_new_ip_type_any, Tcp_bind_any p port]))"
  using assms(3,4) closed_at [OF assms(1,2)] assms(1,2)
  by (simp add: bind_call_def Bind_valid TcpIp_Bind_def call_ptr_def call_err_def Let_def)

lemma bind_again:
  assumes "\<And>t. ans_err env t = ERR_OK" and "\<And>t. ans_ptr env t \<noteq> None"
    and "all_closed s" and "valid_fd fd s"
  shows "returns (api_run env (replicate n (Op_bind fd port)) s) (\<lambda>s'. all_closed s' \<and> valid_fd fd s' \<and>
    count_list (tr (core s')) Tcp_new_ip_type_any = count_list (tr (core s)) Tcp_new_ip_type_any + n \<and>
    (\<forall>p. count_list (tr (core s')) (Tcp_close p) = count_list (tr (core s)) (Tcp_close p)))"
  using assms(3,4)
proof (induction n arbitrary: s)
  case 0
  then show ?case by simp
next
  case (Suc n)
  from bind_on_closed [OF Suc.prems assms(1,2), of port] obtain s1 p
    where s1: "bind_call env fd port s = Inr (0, s1)" "all_closed s1" "valid_fd fd s1"
      "tr (core s1) = tr (core s) @ [Tcp_new_ip_type_any, Tcp_bind_any p port]"
    by (auto simp: returns_iff)
  from Suc.IH [OF s1(2,3)] s1(1,4) show ?case
    by (auto simp: api_call_def elim!: returns_mono)
qed

subsection \<open>Opening the same descriptor again\<close>

lemma open_again:
  assumes "0 \<le> fd" and "fd < 512" and "length (TcpIp_Socket_Conn s) = 512"
    and "0 \<le> TcpIp_No_Socket_Conn s" and "TcpIp_No_Socket_Conn s + int n < 2 ^ 31"
  shows "returns (api_run env (replicate n (Op_socket fd)) s) (\<lambda>s'.
    TcpIp_No_Socket_Conn s' = TcpIp_No_Socket_Conn s + int n \<and> length (TcpIp_Socket_Conn s') = 512)"
  using assms(3-5)
proof (induction n arbitrary: s)
  case 0
  then show ?case by simp
next
  case (Suc n)
  let ?s = "s\<lparr>TcpIp_Socket_Conn := (TcpIp_Socket_Conn s)[nat fd := (TcpIp_Socket_Conn s ! nat fd)
      \<lparr>SocketFd := fd, SocketId := of_int fd, TcpState := TCPIP_CLOSED\<rparr>],
    TcpIp_No_Socket_Conn := TcpIp_No_Socket_Conn s + 1\<rparr>"
  have "api_call env (Op_socket fd) s = Inr ?s"
    using assms(1,2) Suc.prems
    by (simp add: api_call_def socket_call_def Init_valid valid_fd_def int_inc_def)
  with Suc.IH [of ?s] Suc.prems show ?case by (auto elim: returns_mono)
qed

subsection \<open>A frame on its way to the application\<close>

text \<open>
  An environment in which every frame is a data segment of the module's connection: the driver
  stays within the buffer, a packet buffer is available, every call but a write succeeds, and while the interface takes the
  frame, lwIP calls the receive function with a live packet, whose address may differ each time.
\<close>

definition receives :: "lwip_env \<Rightarrow> cptr \<Rightarrow> (trace \<Rightarrow> nat) \<Rightarrow> bool" where
  "receives env tpcb q \<longleftrightarrow>
     (\<forall>t i. netif_input_set env t i) \<and>
     (\<forall>t. (\<forall>p bytes n f. last t \<noteq> Tcp_write p bytes n f) \<longrightarrow> ans_err env t = ERR_OK) \<and>
     (\<forall>t. ans_ptr env t \<noteq> None) \<and>
     (\<forall>t. fst (ans_frame env t) \<noteq> 0 \<and> unat (fst (ans_frame env t)) \<le> 1500 \<and>
        length (snd (ans_frame env t)) \<le> 1500) \<and>
     (\<forall>t. callbacks env t = (case last t of
        Netif_input p i \<Rightarrow> [Cb_recv tpcb (Some (q t)) ERR_OK] | _ \<Rightarrow> [])) \<and>
     (\<forall>t. pbuf_at env t (q t) \<noteq> None)"

fun is_ack :: "event \<Rightarrow> bool" where
  "is_ack (Tcp_recved p n) = True"
| "is_ack _ = False"

definition acked :: "trace \<Rightarrow> nat" where
  "acked t = length (filter is_ack t)"

lemma main_receives:
  assumes env: "receives env tpcb q" and inv: "core_inv k"
  obtains k' a where "TcpIp_MainFunction env k = Inr k'" "rx k' = push_value (Some a) (rx k)"
    "\<exists>es p. a = q (tr k @ es @ [Netif_input p 0])" "Pbuf_free (Some a) \<in> set (tr k')"
    "acked (tr k') = Suc (acked (tr k))"
    "\<exists>es p fs. tr k' = tr k @ es @ Netif_input p 0 # fs \<and> a = q (tr k @ es @ [Netif_input p 0]) \<and>
       (\<forall>p i. Netif_input p i \<notin> set es \<and> Netif_input p i \<notin> set fs)"
proof -
  let ?t1 = "tr k @ [Macphy_pkt_recv ETHERNET_MTU]"
  obtain len bytes where fr: "ans_frame env ?t1 = (len, bytes)" by fastforce
  with env have len: "len \<noteq> 0" "unat len \<le> 1500" "length bytes \<le> 1500"
    unfolding receives_def by (metis fst_conv, metis fst_conv, metis snd_conv)
  from env have "ans_ptr env (?t1 @ [Pbuf_alloc_raw_pool len]) \<noteq> None"
    unfolding receives_def by blast
  then obtain p where p: "ans_ptr env (?t1 @ [Pbuf_alloc_raw_pool len]) = Some p" by blast
  let ?es = "[Macphy_pkt_recv ETHERNET_MTU, Pbuf_alloc_raw_pool len,
    Pbuf_take (Some p) (take (unat len) (overlay bytes (Lwip_EthPkt k))), Link_stats_recv]"
  let ?t = "tr k @ ?es @ [Netif_input (Some p) 0]"
  from env obtain b where b: "pbuf_at env ?t (q ?t) = Some b"
    unfolding receives_def by blast
  from inv have pkt: "length (Lwip_EthPkt k) = 1500" and rx: "rx_inv (rx k)"
    by (simp_all add: core_inv_def ETHERNET_MTU_def)
  let ?k' = "k\<lparr>Lwip_EthPkt := overlay bytes (Lwip_EthPkt k), rx := push_value (Some (q ?t)) (rx k),
    tr := ?t @ recv_events tpcb (q ?t) b @ [Sys_check_timeouts]\<rparr>"
  have "TcpIp_MainFunction env k = Inr ?k'"
    using fr len p pkt rx b env
    by (simp add: TcpIp_MainFunction_def lwip_int_main_def Let_def call_ptr_def receives_def
        input_loop.simps MAX_TCPIP_LOCAL_ADDRESS_def call_cbs_def run_callback_def raw_recv_ok
        recv_events_def emit_def)
  moreover have "acked (tr ?k') = Suc (acked (tr k))"
    by (simp add: acked_def recv_events_def)
  moreover have "Pbuf_free (Some (q ?t)) \<in> set (tr ?k')"
    by (simp add: recv_events_def)
  moreover have "\<exists>es p. q ?t = q (tr k @ es @ [Netif_input p 0])" by blast
  moreover have "\<exists>es p' fs. tr ?k' = tr k @ es @ Netif_input p' 0 # fs \<and>
      q ?t = q (tr k @ es @ [Netif_input p' 0]) \<and>
      (\<forall>p i. Netif_input p i \<notin> set es \<and> Netif_input p i \<notin> set fs)"
    by (intro exI [of _ ?es] exI [of _ "Some p"]
        exI [of _ "recv_events tpcb (q ?t) b @ [Sys_check_timeouts]"]) (simp add: recv_events_def)
  ultimately show ?thesis by (intro that [of ?k' "q ?t"]) simp_all
qed

text \<open>The faults of the socket calls on an entry of the table.\<close>

lemma socket_call_faults:
  assumes "valid_fd fd s"
  shows "bind_call env fd port s \<noteq> Inl f" "accept_call fd s \<noteq> Inl f"
    "socket_call fd s = Inl f \<Longrightarrow> f = IntOverflow"
    "listen_call env fd s = Inl f \<Longrightarrow> f = DanglingRead"
    "send_call env fd data n s = Inl f \<Longrightarrow> f \<in> {NullDeref, DanglingRead, OutOfBounds}"
    "core_inv (core s) \<Longrightarrow> recv_call env fd data n s = Inl f \<Longrightarrow> f \<in> {DanglingRead, OutOfBounds}"
proof -
  show "bind_call env fd port s \<noteq> Inl f"
    using assms by (auto simp: bind_call_def Bind_valid rbind_Inl_iff Bind_faults)
  show "accept_call fd s \<noteq> Inl f"
    using assms by (simp add: accept_call_def Accept_valid)
  show "socket_call fd s = Inl f \<Longrightarrow> f = IntOverflow"
    using assms by (auto simp: socket_call_def Init_valid rbind_Inl_iff int_inc_def split: if_splits)
  show "listen_call env fd s = Inl f \<Longrightarrow> f = DanglingRead"
    using assms by (auto simp: listen_call_def Listen_valid rbind_Inl_iff split: if_splits
        dest: Listen_faults)
  show "send_call env fd data n s = Inl f \<Longrightarrow> f \<in> {NullDeref, DanglingRead, OutOfBounds}"
    using assms by (cases data) (auto simp: send_call_def Send_valid rbind_Inl_iff TcpIp_send_def [of env None]
        split: if_splits dest: Send_faults)
  show "core_inv (core s) \<Longrightarrow> recv_call env fd data n s = Inl f \<Longrightarrow> f \<in> {DanglingRead, OutOfBounds}"
    using assms by (auto simp: recv_call_def Recv_valid rbind_Inl_iff split: if_splits
        dest: Recv_faults [OF core_inv_rx])
qed

text \<open>Receiving through a socket while a packet waits.\<close>

lemma recv_call_waiting:
  assumes "valid_fd fd s" and "TCPIP_ACCEPT \<le> fd_state fd s" and "core_inv (core s)"
    and "rx_content (rx (core s)) = Some (Some a)"
  shows "pbuf_at env (tr (core s)) a = None \<Longrightarrow> recv_call env fd (Some dst) n s = Inl DanglingRead"
    and "pbuf_at env (tr (core s)) a = Some b \<Longrightarrow> unat (pb_len b) \<le> length (pb_payload b) \<Longrightarrow>
      if unat (pb_len b) \<le> length dst
      then returns (recv_call env fd (Some dst) n s) (\<lambda>(r, d, s'). r = int (unat (pb_len b)) \<and>
        d = Some (take (unat (pb_len b)) (pb_payload b) @ drop (unat (pb_len b)) dst) \<and>
        rx_content (rx (core s')) = None)
      else recv_call env fd (Some dst) n s = Inl OutOfBounds"
proof -
  have recv: "recv_call env fd (Some dst) n s =
      rbind (TcpIp_recv env (Some dst) (core s)) (\<lambda>(n, d, k). Inr (n, d, s\<lparr>core := k\<rparr>))"
    using assms(1,2) by (simp add: recv_call_def Recv_valid)
  note rx = core_inv_rx(1) [OF assms(3)] assms(4)
  show "recv_call env fd (Some dst) n s = Inl DanglingRead" if "pbuf_at env (tr (core s)) a = None"
    using recv_dangling [OF rx that] by (simp add: recv)
  show "if unat (pb_len b) \<le> length dst
      then returns (recv_call env fd (Some dst) n s) (\<lambda>(r, d, s'). r = int (unat (pb_len b)) \<and>
        d = Some (take (unat (pb_len b)) (pb_payload b) @ drop (unat (pb_len b)) dst) \<and>
        rx_content (rx (core s')) = None)
      else recv_call env fd (Some dst) n s = Inl OutOfBounds"
    if "pbuf_at env (tr (core s)) a = Some b" "unat (pb_len b) \<le> length (pb_payload b)"
    using recv_waiting [OF rx that, of dst] by (auto simp: recv returns_iff split: if_splits)
qed

lemma recv_call_empty:
  assumes "valid_fd fd s" and "TCPIP_ACCEPT \<le> fd_state fd s" and "core_inv (core s)"
    and "rx_content (rx (core s)) = None"
  shows "returns (recv_call env fd (Some dst) n s) (\<lambda>(r, d, s'). r = 0 \<and> d = Some dst)"
proof -
  from pop_inv [OF core_inv_rx(1) [OF assms(3)]] assms(4) obtain r
    where "pop_pbuf_from_rx_ctrl_blk (rx (core s)) = Inr (None, r)"
    by (auto simp: returns_iff)
  with assms(1,2) show ?thesis by (simp add: recv_call_def Recv_valid TcpIp_recv_def)
qed

text \<open>Further frames while a packet waits.\<close>

lemma main_again:
  assumes "receives env tpcb q"
  shows "core_inv (core s) \<Longrightarrow> rx_content (rx (core s)) = Some m \<Longrightarrow>
    returns (api_run env (replicate n Op_MainFunction) s) (\<lambda>s'. core_inv (core s') \<and>
      rx_content (rx (core s')) = Some m \<and> acked (tr (core s')) = acked (tr (core s)) + n \<and>
      TcpIp_Socket_Conn s' = TcpIp_Socket_Conn s)"
proof (induction n arbitrary: s)
  case 0
  then show ?case by simp
next
  case (Suc n)
  from main_receives [OF assms Suc.prems(1)] obtain k' a
    where k': "TcpIp_MainFunction env (core s) = Inr k'" "rx k' = push_value (Some a) (rx (core s))"
      "acked (tr k') = Suc (acked (tr (core s)))" by metis
  from core_inv_rx(1) [OF Suc.prems(1)] Suc.prems(2) k'(2)
  have content: "rx_content (rx k') = Some m" by (simp add: push_value_content)
  from api_core_keeps(2) [OF Suc.prems(1), of env] k'(1) have "core_inv k'" by simp
  with Suc.IH [of "s\<lparr>core := k'\<rparr>"] content k'(1,3) show ?case
    by (auto simp: api_call_def on_core_def elim!: returns_mono)
qed

subsection \<open>A concrete environment that delivers data, and an accepted socket\<close>

definition data_env :: lwip_env where
  "data_env = keep_env\<lparr>callbacks := (\<lambda>t. case last t of
     Netif_input p i \<Rightarrow> [Cb_recv (Some 3) (Some 7) ERR_OK] | _ \<Rightarrow> [])\<rparr>"

lemma data_env_receives: "receives data_env (Some 3) (\<lambda>t. 7)"
  by (simp add: receives_def data_env_def keep_env_def demo_env_def)

definition accepted_state :: socket_state where
  "accepted_state = socket_init\<lparr>TcpIp_Socket_Conn := (TcpIp_Socket_Conn socket_init)[0 :=
     \<lparr>SocketFd = 0, SocketId = 0, TcpState = TCPIP_ACCEPT, WaitEvent = no_event\<rparr>],
     TcpIp_No_Socket_Conn := 1\<rparr>"

lemma accepted_state_simps [simp]:
  "core accepted_state = tcpip_init" "TcpState (TcpIp_Socket_Conn accepted_state ! 0) = TCPIP_ACCEPT"
  by (simp_all add: accepted_state_def socket_init_def MAX_TCPIP_SOCKET_HANDLES_def)

lemma accepted_state_reach: "reach (sys_step env) socket_init accepted_state"
proof (rule reach_step [OF reach_one])
  let ?s = "socket_init\<lparr>TcpIp_No_Socket_Conn := 1\<rparr>"
  show "sys_step env socket_init (Op_socket 0) ?s"
    by (rule sys_stepI) (simp add: api_call_def socket_call_def Init_valid int_inc_def socket_init_def
        MAX_TCPIP_SOCKET_HANDLES_def valid_fd_def list_update_same_conv)
  show "sys_step env ?s (Op_Main_Loop (\<lambda>i. TCPIP_ACCEPT) int) accepted_state"
    by (rule sys_stepI) (simp add: api_call_def TcpIp_Socket_Main_Loop_def main_loop.simps [of _ _ 0]
        main_loop.simps [of _ _ "Suc 0"] OS_WaitEvent_Wakeup_def accepted_state_def socket_init_def
        MAX_TCPIP_SOCKET_HANDLES_def Let_def)
qed

lemma waiting_state_reach:
  "\<exists>s. reach (sys_step data_env) socket_init s \<and> rx_content (rx (core s)) = Some (Some 7) \<and>
     TcpState (TcpIp_Socket_Conn s ! 0) = TCPIP_ACCEPT"
proof -
  obtain k' where k': "TcpIp_MainFunction data_env tcpip_init = Inr k'" "rx k' = push_value (Some 7) rx_init"
    by (metis main_receives [OF data_env_receives core_inv_init] tcpip_init_simps(1))
  let ?s = "accepted_state\<lparr>core := k'\<rparr>"
  have "sys_step data_env accepted_state Op_MainFunction ?s"
    using k'(1) by (intro sys_stepI) (simp add: api_call_def on_core_def)
  from reach_step [OF accepted_state_reach this] have "reach (sys_step data_env) socket_init ?s" .
  moreover have "rx_content (rx (core ?s)) = Some (Some 7)"
    by (simp add: k'(2) push_value_content rx_inv_init)
  ultimately show ?thesis by (intro exI [of _ ?s]) simp
qed

end
