(* ===== verification/Effects.thy ===== *)
theory Effects
  imports System
begin

text \<open>
  What a call of the module does to its parts: the socket layer changes the variables of
  \<open>src/TcpIp.c\<close> and \<open>src/lwip_int.c\<close> only through their functions, and the table only when
  a socket is opened, listens or is polled. So the module, seen without its table, is a refinement
  of the transition system of those functions, and an invariant of theirs is one of the module.
\<close>

subsection \<open>The functions of the core as a transition system\<close>

inductive core_step :: "lwip_env \<Rightarrow> tcpip_state \<Rightarrow> tcpip_state \<Rightarrow> bool" for env where
  core_init: "TcpIp_Init env None k = Inr k' \<Longrightarrow> core_step env k k'"
| core_main: "TcpIp_MainFunction env k = Inr k' \<Longrightarrow> core_step env k k'"
| core_close: "TcpIp_Close i a k = (r, k') \<Longrightarrow> core_step env k k'"
| core_bind: "TcpIp_Bind env i a port k = Inr (r, k') \<Longrightarrow> core_step env k k'"
| core_listen: "TcpIp_TcpListen env i m k = Inr (r, k') \<Longrightarrow> core_step env k k'"
| core_connect: "TcpIp_TcpConnect env i remote k = Inr (r, k') \<Longrightarrow> core_step env k k'"
| core_recv: "TcpIp_recv env d k = Inr (r, d', k') \<Longrightarrow> core_step env k k'"
| core_send: "TcpIp_send env d n k = Inr (r, k') \<Longrightarrow> core_step env k k'"
| core_stay: "core_step env k k"

inductive_cases core_stepE: "core_step env k k'"

text \<open>A call of the module seen from the core: its label does not matter.\<close>

definition core_move :: "lwip_env \<Rightarrow> tcpip_state \<Rightarrow> api_op \<Rightarrow> tcpip_state \<Rightarrow> bool" where
  "core_move env k op k' \<longleftrightarrow> core_step env k k'"

subsection \<open>The effect of each call\<close>

definition writes_table :: "api_op \<Rightarrow> bool" where
  "writes_table op \<longleftrightarrow>
     (case op of Op_socket d \<Rightarrow> True | Op_listen d \<Rightarrow> True | Op_Main_Loop f i \<Rightarrow> True | _ \<Rightarrow> False)"

lemma sock_effects:
  assumes "sock_inv s"
  shows "ensures (TcpIp_Socket_Bind env fd port s) (\<lambda>(r, s'). \<exists>k. core_step env (core s) k \<and> s' = s\<lparr>core := k\<rparr>)"
    "ensures (TcpIp_Socket_Accept fd s) (\<lambda>(r, s'). s' = s)"
    "ensures (TcpIp_Socket_Recv env fd d n s) (\<lambda>(r, d, s'). \<exists>k. core_step env (core s) k \<and> s' = s\<lparr>core := k\<rparr>)"
    "ensures (TcpIp_Socket_Send env fd d n s) (\<lambda>(r, s'). \<exists>k. core_step env (core s) k \<and> s' = s\<lparr>core := k\<rparr>)"
proof -
  have stay: "\<exists>k. core_step env (core s) k \<and> s = s\<lparr>core := k\<rparr>"
    by (intro exI [of _ "core s"]) (simp add: core_stay)
  show "ensures (TcpIp_Socket_Bind env fd port s) (\<lambda>(r, s'). \<exists>k. core_step env (core s) k \<and> s' = s\<lparr>core := k\<rparr>)"
    by (rule fd_bind.ensures_cases [OF assms])
       (use stay in \<open>auto simp: Bind_valid intro!: ensuresI core_bind\<close>)
  show "ensures (TcpIp_Socket_Accept fd s) (\<lambda>(r, s'). s' = s)"
    by (rule fd_accept.ensures_cases [OF assms]) (simp_all add: Accept_valid)
  show "ensures (TcpIp_Socket_Recv env fd d n s) (\<lambda>(r, d, s'). \<exists>k. core_step env (core s) k \<and> s' = s\<lparr>core := k\<rparr>)"
    by (rule fd_recv.ensures_cases [OF assms])
       (use stay in \<open>auto simp: Recv_valid intro!: ensuresI core_recv\<close>)
  show "ensures (TcpIp_Socket_Send env fd d n s) (\<lambda>(r, s'). \<exists>k. core_step env (core s) k \<and> s' = s\<lparr>core := k\<rparr>)"
    by (rule fd_send.ensures_cases [OF assms])
       (use stay in \<open>auto simp: Send_valid intro!: ensuresI core_send\<close>)
qed

lemma on_core_effect:
  "(\<And>k. f (core s) = Inr k \<Longrightarrow> core_step env (core s) k) \<Longrightarrow>
     ensures (on_core f s) (\<lambda>s'. \<exists>k. core_step env (core s) k \<and> s' = s\<lparr>core := k\<rparr>)"
  by (auto simp: on_core_def intro!: ensuresI)

text \<open>A call that does not write the table changes the core, by one of its functions.\<close>

lemma plain_effect:
  assumes "sock_inv s" and "\<not> writes_table op"
  shows "ensures (api_call env op s) (\<lambda>s'. \<exists>k. core_step env (core s) k \<and> s' = s\<lparr>core := k\<rparr>)"
proof (cases op)
  case (Op_bind fd port)
  with sock_effects(1) [OF assms(1), of env fd port] show ?thesis
    by (auto simp: api_call_def bind_call_def elim!: ensures_mono)
next
  case (Op_accept fd)
  with sock_effects(2) [OF assms(1), of fd] show ?thesis
    by (auto simp: api_call_def accept_call_def elim!: ensures_mono intro!: exI [of _ "core s"] core_stay)
next
  case (Op_socket_recv fd d n)
  with sock_effects(3) [OF assms(1), of env fd d n] show ?thesis
    by (auto simp: api_call_def recv_call_def elim!: ensures_mono)
next
  case (Op_socket_send fd d n)
  with sock_effects(4) [OF assms(1), of env fd d n] show ?thesis
    by (auto simp: api_call_def send_call_def elim!: ensures_mono)
qed (use assms(2) in \<open>auto simp: api_call_def writes_table_def intro!: on_core_effect
      intro: core_step.intros prod.collapse [symmetric]\<close>)

text \<open>Opening, listening and polling.\<close>

lemma open_effect:
  assumes "sock_inv s"
  shows "ensures (api_call env (Op_socket fd) s) (\<lambda>s'. fd_rejected fd \<and> s' = s \<or>
    valid_fd fd s \<and> TcpIp_No_Socket_Conn s < 2 ^ 31 - 1 \<and>
    s' = s\<lparr>TcpIp_Socket_Conn := (TcpIp_Socket_Conn s)[nat fd := (TcpIp_Socket_Conn s ! nat fd)
        \<lparr>SocketFd := fd, SocketId := of_int fd, TcpState := TCPIP_CLOSED\<rparr>],
      TcpIp_No_Socket_Conn := TcpIp_No_Socket_Conn s + 1\<rparr>)"
proof -
  have "ensures (TcpIp_Socket_Init fd s) (\<lambda>(r, s'). fd_rejected fd \<and> s' = s \<or>
    valid_fd fd s \<and> TcpIp_No_Socket_Conn s < 2 ^ 31 - 1 \<and>
    s' = s\<lparr>TcpIp_Socket_Conn := (TcpIp_Socket_Conn s)[nat fd := (TcpIp_Socket_Conn s ! nat fd)
        \<lparr>SocketFd := fd, SocketId := of_int fd, TcpState := TCPIP_CLOSED\<rparr>],
      TcpIp_No_Socket_Conn := TcpIp_No_Socket_Conn s + 1\<rparr>)"
    by (rule fd_init.ensures_cases [OF assms]) (simp_all add: Init_valid int_inc_def)
  then show ?thesis by (auto simp: api_call_def socket_call_def elim!: ensures_mono)
qed

lemma listen_effect:
  assumes "sock_inv s"
  shows "ensures (api_call env (Op_listen fd) s) (\<lambda>s'. \<exists>k. core_step env (core s) k \<and>
    (\<not> (valid_fd fd s \<and> fd_state fd s \<in> {TCPIP_BIND, TCPIP_LISTEN}) \<and> s' = s\<lparr>core := k\<rparr> \<or>
     valid_fd fd s \<and> fd_state fd s \<in> {TCPIP_BIND, TCPIP_LISTEN} \<and>
       (\<exists>x \<in> {TCPIP_ACCEPT, TCPIP_LISTEN}. s' = s\<lparr>core := k, TcpIp_Socket_Conn :=
          (TcpIp_Socket_Conn s)[nat fd := (TcpIp_Socket_Conn s ! nat fd)\<lparr>TcpState := x\<rparr>]\<rparr>)))"
proof -
  have stay: "\<exists>k. core_step env (core s) k \<and> s = s\<lparr>core := k\<rparr>"
    by (intro exI [of _ "core s"]) (simp add: core_stay)
  have "ensures (TcpIp_Socket_Listen env fd s) (\<lambda>(r, s'). \<exists>k. core_step env (core s) k \<and>
    (\<not> (valid_fd fd s \<and> fd_state fd s \<in> {TCPIP_BIND, TCPIP_LISTEN}) \<and> s' = s\<lparr>core := k\<rparr> \<or>
     valid_fd fd s \<and> fd_state fd s \<in> {TCPIP_BIND, TCPIP_LISTEN} \<and>
       (\<exists>x \<in> {TCPIP_ACCEPT, TCPIP_LISTEN}. s' = s\<lparr>core := k, TcpIp_Socket_Conn :=
          (TcpIp_Socket_Conn s)[nat fd := (TcpIp_Socket_Conn s ! nat fd)\<lparr>TcpState := x\<rparr>]\<rparr>)))"
  proof (rule fd_listen.ensures_cases [OF assms])
    assume fd: "valid_fd fd s"
    show ?thesis
    proof (cases "fd_state fd s \<in> {TCPIP_BIND, TCPIP_LISTEN}")
      case True
      with fd show ?thesis
        by (auto simp: Listen_valid intro!: ensuresI exI intro: core_listen split: prod.splits)
    next
      case False
      with fd stay show ?thesis by (simp add: Listen_valid)
    qed
  qed (use stay valid_fd_simps(1) in fastforce)
  then show ?thesis by (auto simp: api_call_def listen_call_def elim!: ensures_mono)
qed

lemma poll_effect:
  "ensures (main_loop f n con s) (\<lambda>(r, s'). core s' = core s \<and>
     TcpIp_No_Socket_Conn s' = TcpIp_No_Socket_Conn s)"
proof (induction f n con s rule: main_loop.induct)
  case (1 f n con s)
  then show ?case
    by (subst main_loop.simps) (simp add: OS_WaitEvent_Wakeup_def Let_def cong del: if_weak_cong)
qed

text \<open>Seen from the core, every call is one of the core's functions, or nothing.\<close>

lemma call_core:
  assumes "sock_inv s" and "api_call env op s = Inr s'"
  shows "core_step env (core s) (core s')"
proof (cases op)
  case (Op_socket fd)
  with assms(2) ensuresD [OF open_effect [OF assms(1)], of env fd s'] show ?thesis
    by (auto intro: core_stay)
next
  case (Op_listen fd)
  with assms(2) ensuresD [OF listen_effect [OF assms(1)], of env fd s'] show ?thesis by auto
next
  case (Op_Main_Loop f i)
  with assms(2) poll_effect [of f i 0 s] show ?thesis
    by (auto simp: api_call_def TcpIp_Socket_Main_Loop_def intro: core_stay split: prod.splits)
qed (use assms(2) in \<open>auto simp: writes_table_def dest!: ensuresD [OF plain_effect [OF assms(1)], rotated]\<close>)

interpretation core_view: refinement_map "sys_step env" socket_init sock_inv "core_move env"
  tcpip_init core for env
  by unfold_locales (auto simp: core_move_def socket_init_def elim!: sys_stepE intro: call_core)

end
