(* ===== verification/Socket_Life.thy ===== *)
theory Socket_Life
  imports Effects
begin

text \<open>
  One socket as its user sees it, whatever the other sockets do: an abstract life cycle of a
  single table entry, which the whole module refines for every descriptor; and the reference
  semantics of receiving and sending, to which the socket layer adds nothing, so that all
  accepted sockets are the same connection.
\<close>

subsection \<open>The life cycle of one descriptor\<close>

text \<open>
  The state and the identifier of the entry of descriptor \<open>fd\<close> before and after a call of the
  module. Opening closes it, a listen moves it from bound or listening on, the poll loop may
  replace its state by what the polled function says of its identifier, and nothing else
  changes it.
\<close>

fun fd_life :: "int \<Rightarrow> TcpIp_ConnState \<times> u16 \<Rightarrow> api_op \<Rightarrow> TcpIp_ConnState \<times> u16 \<Rightarrow> bool" where
  "fd_life fd (a, i) (Op_socket d) (b, j) \<longleftrightarrow>
     (if d = fd then b = TCPIP_CLOSED \<and> j = of_int fd else b = a \<and> j = i)"
| "fd_life fd (a, i) (Op_listen d) (b, j) \<longleftrightarrow> j = i \<and>
     (if d = fd \<and> a \<in> {TCPIP_BIND, TCPIP_LISTEN} then b \<in> {TCPIP_ACCEPT, TCPIP_LISTEN} else b = a)"
| "fd_life fd (a, i) (Op_Main_Loop f n) (b, j) \<longleftrightarrow> j = i \<and> (b = a \<or> b = f i)"
| "fd_life fd (a, i) op (b, j) \<longleftrightarrow> b = a \<and> j = i"

lemma fd_life_id: "fd_life fd x op y \<Longrightarrow> snd y \<in> {snd x, of_int fd}"
  by (cases "(fd, x, op, y)" rule: fd_life.cases) (auto split: if_splits)

interpretation life: step_invariant "fd_life fd" "(TCPIP_CLOSED, 0)" "\<lambda>x. snd x \<in> {0, of_int fd}" for fd
  by unfold_locales (auto dest: fd_life_id)

definition fd_view :: "int \<Rightarrow> socket_state \<Rightarrow> TcpIp_ConnState \<times> u16" where
  "fd_view fd s = (fd_state fd s, SocketId (TcpIp_Socket_Conn s ! nat fd))"

lemma fd_view_core [simp]: "fd_view fd (s\<lparr>core := k\<rparr>) = fd_view fd s"
  "fd_view fd (s\<lparr>TcpIp_No_Socket_Conn := n\<rparr>) = fd_view fd s"
  by (simp_all add: fd_view_def)

lemma fd_view_update:
  "valid_fd fd s \<Longrightarrow> valid_fd d s \<Longrightarrow>
     fd_view fd (s\<lparr>TcpIp_Socket_Conn := (TcpIp_Socket_Conn s)[nat d := c]\<rparr>) =
       (if d = fd then (TcpState c, SocketId c) else fd_view fd s)"
  by (auto simp: fd_view_def valid_fd_def nth_list_update)

lemma life_stay [simp]:
  "d \<noteq> fd \<Longrightarrow> fd_life fd x (Op_socket d) x" "d \<noteq> fd \<Longrightarrow> fd_life fd x (Op_listen d) x"
  "fd_life fd x (Op_Main_Loop f n) x"
  by (cases x; simp)+

text \<open>The poll loop moves the entry as the life cycle says.\<close>

lemma poll_life:
  "ensures (main_loop f n con s) (\<lambda>(r, s'). valid_fd fd s \<longrightarrow>
     fd_life fd (fd_view fd s) (Op_Main_Loop f n) (fd_view fd s'))"
proof (induction f n con s rule: main_loop.induct)
  case (1 f n con s)
  show ?case
  proof (cases "n con < TcpIp_No_Socket_Conn s \<and> con < length (TcpIp_Socket_Conn s)")
    case True
    let ?c = "(TcpIp_Socket_Conn s ! con)\<lparr>TcpState := f (SocketId (TcpIp_Socket_Conn s ! con))\<rparr>"
    let ?s = "s\<lparr>TcpIp_Socket_Conn := (TcpIp_Socket_Conn s)[con := ?c]\<rparr>"
    from True have step: "main_loop f n con s = main_loop f n (con + 1) ?s"
      by (subst main_loop.simps) (simp add: Let_def OS_WaitEvent_Wakeup_def)
    have IH: "ensures (main_loop f n (con + 1) ?s) (\<lambda>(r, s'). valid_fd fd ?s \<longrightarrow>
        fd_life fd (fd_view fd ?s) (Op_Main_Loop f n) (fd_view fd s'))"
      using True "1.IH" [OF _ _ refl refl refl refl]
      by (simp add: OS_WaitEvent_Wakeup_def cong del: if_weak_cong)
    have view: "fd_view fd ?s = (if nat fd = con
        then (f (SocketId (TcpIp_Socket_Conn s ! con)), SocketId (TcpIp_Socket_Conn s ! con))
        else fd_view fd s)"
      using True by (auto simp: fd_view_def)
    show ?thesis unfolding step using IH
    proof (rule ensures_mono, clarify)
      fix r s'
      assume fd: "valid_fd fd s" and "valid_fd fd ?s \<longrightarrow>
          fd_life fd (fd_view fd ?s) (Op_Main_Loop f n) (fd_view fd s')"
      then have "fd_life fd (fd_view fd ?s) (Op_Main_Loop f n) (fd_view fd s')" by simp
      then show "fd_life fd (fd_view fd s) (Op_Main_Loop f n) (fd_view fd s')"
        by (cases "fd_view fd s'") (auto simp: view fd_view_def [of fd s] split: if_splits)
    qed
  next
    case False
    then show ?thesis by (subst main_loop.simps) auto
  qed
qed

text \<open>Each call moves the entry as the life cycle says; most leave the table.\<close>

lemma life_other: "\<not> writes_table op \<Longrightarrow> fd_life fd x op x"
  by (cases x; cases op) (auto simp: writes_table_def)

lemma api_call_life:
  assumes "sock_inv s" and "valid_fd fd s" and "api_call env op s = Inr s'"
  shows "fd_life fd (fd_view fd s) op (fd_view fd s')"
proof (cases op)
  case (Op_socket d)
  with assms(2,3) ensuresD [OF open_effect [OF assms(1)], of env d s'] show ?thesis
    by (auto simp: fd_view_update fd_view_def [of fd s])
next
  case (Op_listen d)
  with assms(2,3) ensuresD [OF listen_effect [OF assms(1)], of env d s'] show ?thesis
    by (auto simp: fd_view_update [of fd "s\<lparr>core := k\<rparr>" for k, simplified] fd_view_def [of fd s])
next
  case (Op_Main_Loop f n)
  with assms poll_life [of f n 0 s fd] show ?thesis
    by (auto simp: api_call_def TcpIp_Socket_Main_Loop_def split: prod.splits)
qed (use assms(3) in \<open>auto simp: writes_table_def life_other
      dest!: ensuresD [OF plain_effect [OF assms(1)], rotated]\<close>)

lemma fd_view_init: "0 \<le> fd \<Longrightarrow> fd < 512 \<Longrightarrow> fd_view fd socket_init = (TCPIP_CLOSED, 0)"
  by (simp add: fd_view_def socket_init_def MAX_TCPIP_SOCKET_HANDLES_def)

lemma sock_inv_valid_fd: "sock_inv s \<Longrightarrow> 0 \<le> fd \<Longrightarrow> fd < 512 \<Longrightarrow> valid_fd fd s"
  by (simp add: valid_fd_def sock_inv_def)

text \<open>A descriptor is a number below 512.\<close>

abbreviation desc :: "nat \<Rightarrow> int" where
  "desc n \<equiv> int (n mod 512)"

interpretation sock_life: refinement_map "sys_step env" socket_init sock_inv "fd_life (desc n)"
  "(TCPIP_CLOSED, 0)" "fd_view (desc n)" for env n
proof unfold_locales
  show "fd_view (desc n) socket_init = (TCPIP_CLOSED, 0)"
    by (rule fd_view_init) simp_all
  fix s op s'
  assume inv: "sock_inv s" and "sys_step env s op s'"
  then have "api_call env op s = Inr s'" by (auto elim: sys_stepE)
  with inv show "fd_life (desc n) (fd_view (desc n) s) op (fd_view (desc n) s')"
    by (intro api_call_life sock_inv_valid_fd) simp_all
qed

subsection \<open>Receiving and sending without sockets\<close>

datatype io = Io_recv "u8 list option" u32 | Io_send "u8 list option" u32

text \<open>The calls of an application on its sockets, and what it gets back.\<close>

fun io_call :: "lwip_env \<Rightarrow> int \<Rightarrow> io \<Rightarrow> socket_state \<Rightarrow> ((int \<times> u8 list option) \<times> socket_state) result"
  where
  "io_call env fd (Io_recv d n) s = rbind (recv_call env fd d n s) (\<lambda>(r, d, s). Inr ((r, d), s))"
| "io_call env fd (Io_send d n) s = rbind (send_call env fd d n s) (\<lambda>(r, s). Inr ((r, d), s))"

fun io_run :: "lwip_env \<Rightarrow> (int \<times> io) list \<Rightarrow> socket_state
    \<Rightarrow> ((int \<times> u8 list option) list \<times> socket_state) result" where
  "io_run env [] s = Inr ([], s)"
| "io_run env ((fd, x) # xs) s =
     rbind (io_call env fd x s) (\<lambda>(r, s). rbind (io_run env xs s) (\<lambda>(rs, s). Inr (r # rs, s)))"

text \<open>The same on the module's one connection; an empty send is nothing.\<close>

fun core_io :: "lwip_env \<Rightarrow> io \<Rightarrow> tcpip_state \<Rightarrow> ((int \<times> u8 list option) \<times> tcpip_state) result" where
  "core_io env (Io_recv d n) k = rbind (TcpIp_recv env d k) (\<lambda>(r, d, k). Inr ((r, d), k))"
| "core_io env (Io_send d n) k =
     (if n = 0 then Inr ((0, d), k)
      else rbind (TcpIp_send env d (ucast n) k) (\<lambda>(r, k). Inr ((r, d), k)))"

fun core_io_run :: "lwip_env \<Rightarrow> io list \<Rightarrow> tcpip_state
    \<Rightarrow> ((int \<times> u8 list option) list \<times> tcpip_state) result" where
  "core_io_run env [] k = Inr ([], k)"
| "core_io_run env (x # xs) k =
     rbind (core_io env x k) (\<lambda>(r, k). rbind (core_io_run env xs k) (\<lambda>(rs, k). Inr (r # rs, k)))"

definition accepted :: "int \<Rightarrow> socket_state \<Rightarrow> bool" where
  "accepted fd s \<longleftrightarrow> valid_fd fd s \<and> TCPIP_ACCEPT \<le> fd_state fd s"

lemma accepted_core [simp]: "accepted fd (s\<lparr>core := k\<rparr>) = accepted fd s"
  by (simp add: accepted_def)

lemma io_call_core:
  "accepted fd s \<Longrightarrow> io_call env fd x s = rbind (core_io env x (core s)) (\<lambda>(r, k). Inr (r, s\<lparr>core := k\<rparr>))"
  by (cases x)
     (simp_all add: accepted_def recv_call_def Recv_valid send_call_def Send_valid rbind_assoc
        case_prod_unfold word_gt_0)

lemma io_run_core:
  "\<forall>(fd, x) \<in> set xs. accepted fd s \<Longrightarrow> io_run env xs s =
     rbind (core_io_run env (map snd xs) (core s)) (\<lambda>(rs, k). Inr (rs, s\<lparr>core := k\<rparr>))"
proof (induction xs arbitrary: s)
  case Nil
  then show ?case by simp
next
  case (Cons fx xs)
  then obtain fd x where fx: "fx = (fd, x)" "accepted fd s" by (cases fx) auto
  have IH: "io_run env xs (s\<lparr>core := k\<rparr>) =
      rbind (core_io_run env (map snd xs) k) (\<lambda>(rs, k). Inr (rs, s\<lparr>core := k\<rparr>))" for k
    using Cons.IH [of "s\<lparr>core := k\<rparr>"] Cons.prems by auto
  show ?case
    by (simp add: fx io_call_core rbind_assoc case_prod_unfold IH)
qed

subsection \<open>Two accepted sockets\<close>

lemma two_accepted_reach:
  "\<exists>s. reach (sys_step env) socket_init s \<and> fd_state 0 s = TCPIP_ACCEPT \<and> fd_state 1 s = TCPIP_ACCEPT"
proof -
  let ?s1 = "socket_init\<lparr>TcpIp_No_Socket_Conn := 1\<rparr>"
  define s2 where "s2 = socket_init\<lparr>TcpIp_Socket_Conn := (TcpIp_Socket_Conn socket_init)
    [1 := \<lparr>SocketFd = 1, SocketId = 1, TcpState = TCPIP_CLOSED, WaitEvent = no_event\<rparr>], TcpIp_No_Socket_Conn := 2\<rparr>"
  let ?s3 = "s2\<lparr>TcpIp_Socket_Conn := polled (\<lambda>i. TCPIP_ACCEPT) 0 2 (TcpIp_Socket_Conn s2)\<rparr>"
  have "sys_step env socket_init (Op_socket 0) ?s1"
    by (rule sys_stepI) (simp add: api_call_def socket_call_def Init_valid int_inc_def socket_init_def
        MAX_TCPIP_SOCKET_HANDLES_def valid_fd_def list_update_same_conv)
  moreover have "sys_step env ?s1 (Op_socket 1) s2"
    by (rule sys_stepI) (simp add: api_call_def socket_call_def Init_valid int_inc_def socket_init_def
        MAX_TCPIP_SOCKET_HANDLES_def valid_fd_def s2_def)
  moreover have "sys_step env s2 (Op_Main_Loop (\<lambda>i. TCPIP_ACCEPT) int) ?s3"
    by (rule sys_stepI) (simp add: api_call_def TcpIp_Socket_Main_Loop_def main_loop_counts s2_def
        socket_init_def MAX_TCPIP_SOCKET_HANDLES_def)
  ultimately have "reach (sys_step env) socket_init ?s3"
    by (blast intro: reach_init reach_step)
  moreover have "fd_state 0 ?s3 = TCPIP_ACCEPT \<and> fd_state 1 ?s3 = TCPIP_ACCEPT"
    by (simp add: polled_nth s2_def socket_init_def MAX_TCPIP_SOCKET_HANDLES_def)
  ultimately show ?thesis by blast
qed

subsection \<open>Properties\<close>

text \<open>C24: every socket obeys the life cycle, whatever the others do. For each descriptor of the
  table, the state and the identifier of its entry, in every reachable state of the module, are
  reachable in the life cycle, and each further call of any function moves them as the life
  cycle allows: opened to closed, from bound or listening to accepted or back to listening by
  its own listen only, to what the polled function reports by the poll loop, and by nothing
  else; the identifier is the descriptor once it was opened, and 0 before.\<close>
theorem socket_states_refine_life_cycle:
  assumes "reach (sys_step env) socket_init s" and "0 \<le> fd" and "fd < 512"
  shows "reach (fd_life fd) (TCPIP_CLOSED, 0) (fd_view fd s) \<and>
    (\<forall>op s'. api_call env op s = Inr s' \<longrightarrow> fd_life fd (fd_view fd s) op (fd_view fd s')) \<and>
    SocketId (TcpIp_Socket_Conn s ! nat fd) \<in> {0, of_int fd}"
proof -
  from assms(2,3) obtain n where fd: "fd = desc n" by (metis mod_less nat_0_le of_nat_less_iff of_nat_numeral)
  from sock_life.view_reach [OF assms(1)] have r: "reach (fd_life fd) (TCPIP_CLOSED, 0) (fd_view fd s)"
    by (simp add: fd)
  moreover from life.reach_inv [OF r] have "SocketId (TcpIp_Socket_Conn s ! nat fd) \<in> {0, of_int fd}"
    by (simp add: fd_view_def)
  ultimately show ?thesis
    using sock_life.view_step [OF sys.reach_inv [OF assms(1)] sys_stepI, of env _ _ n] by (simp add: fd)
qed

theorem socket_states_refine_life_cycle_witness:
  "reach (fd_life 0) (TCPIP_CLOSED, 0) (TCPIP_ACCEPT, 0)"
  using socket_states_refine_life_cycle [OF accepted_state_reach, of 0]
  by (simp add: fd_view_def accepted_state_def socket_init_def MAX_TCPIP_SOCKET_HANDLES_def)

text \<open>C25: all accepted sockets are one connection. Any run of receives and sends, each on any
  descriptor whose state is at least accepted, has the results and the effect of the same calls
  made directly on the module's connection (an empty send does nothing), and so of the same
  calls with the descriptors exchanged in any way.\<close>
theorem sockets_share_one_connection:
  assumes "reach (sys_step env) socket_init s" and "map snd xs = map snd ys"
    and "\<forall>(fd, x) \<in> set xs. 0 \<le> fd \<and> fd < 512 \<and> TCPIP_ACCEPT \<le> TcpState (TcpIp_Socket_Conn s ! nat fd)"
    and "\<forall>(fd, x) \<in> set ys. 0 \<le> fd \<and> fd < 512 \<and> TCPIP_ACCEPT \<le> TcpState (TcpIp_Socket_Conn s ! nat fd)"
  shows "io_run env xs s =
      rbind (core_io_run env (map snd xs) (core s)) (\<lambda>(rs, k). Inr (rs, s\<lparr>core := k\<rparr>)) \<and>
    io_run env xs s = io_run env ys s"
proof -
  note inv = sys.reach_inv [OF assms(1)]
  have "\<forall>(fd, x) \<in> set xs. accepted fd s" "\<forall>(fd, x) \<in> set ys. accepted fd s"
    using assms(3,4) sock_inv_valid_fd [OF inv] by (auto simp: accepted_def)
  from io_run_core [OF this(1), of env] io_run_core [OF this(2), of env] assms(2) show ?thesis by simp
qed

theorem sockets_share_one_connection_witness:
  "\<exists>s. reach (sys_step demo_env) socket_init s \<and>
     io_run demo_env [(0, Io_send (Some [1]) 1), (1, Io_recv (Some [2]) 1)] s =
     io_run demo_env [(1, Io_send (Some [1]) 1), (0, Io_recv (Some [2]) 1)] s"
proof -
  obtain s where s: "reach (sys_step demo_env) socket_init s" "fd_state 0 s = TCPIP_ACCEPT"
    "fd_state 1 s = TCPIP_ACCEPT" using two_accepted_reach by blast
  have "io_run demo_env [(0, Io_send (Some [1]) 1), (1, Io_recv (Some [2]) 1)] s =
      io_run demo_env [(1, Io_send (Some [1]) 1), (0, Io_recv (Some [2]) 1)] s"
    by (rule conjunct2 [OF sockets_share_one_connection [OF s(1)]]) (use s in simp_all)
  with s(1) show ?thesis by blast
qed

text \<open>Binding a second socket takes the first one's traffic over: with one socket accepted and
  another one closed, a bind of the second makes lwIP's new connection the target of the next
  send on the first; its old connection is not closed.\<close>
theorem bind_redirects_other_sockets:
  assumes "reach (sys_step env) socket_init s" and "0 \<le> a" and "a < 512" and "0 \<le> b" and "b < 512"
    and "TCPIP_ACCEPT \<le> TcpState (TcpIp_Socket_Conn s ! nat a)"
    and "TcpState (TcpIp_Socket_Conn s ! nat b) = TCPIP_CLOSED"
    and "\<And>t. ans_err env t = ERR_OK" and "ans_ptr env (tr (core s) @ [Tcp_new_ip_type_any]) = Some p"
    and "n \<noteq> 0" and "unat (ucast n :: u16) \<le> length bytes"
  shows "returns (rbind (bind_call env b port s) (\<lambda>(r, s'). send_call env a (Some bytes) n s'))
    (\<lambda>(r, s''). r = 0 \<and> tcpip_raw_pcb (core s'') = Some p \<and> tr (core s'') = tr (core s) @
       [Tcp_new_ip_type_any, Tcp_bind_any (Some p) port, Tcp_write (Some p) bytes (ucast n) 1])"
proof -
  from sys.reach_inv [OF assms(1)] have "sock_inv s" .
  then have "valid_fd a s" "valid_fd b s" using assms(2-5) by (simp_all add: sock_inv_valid_fd)
  with assms(6-11) show ?thesis
    by (simp add: bind_call_def Bind_valid send_call_def Send_valid TcpIp_Bind_def TcpIp_send_def
        call_ptr_def call_err_def Let_def word_gt_0)
qed

theorem bind_redirects_other_sockets_witness:
  "returns (rbind (bind_call demo_env 1 80 accepted_state) (\<lambda>(r, s'). send_call demo_env 0 (Some [5]) 1 s'))
     (\<lambda>(r, s''). tr (core s'') = [Tcp_new_ip_type_any, Tcp_bind_any (Some 1) 80, Tcp_write (Some 1) [5] 1 1])"
  using bind_redirects_other_sockets [OF accepted_state_reach, of 0 1 demo_env 1 1 "[5]" 80]
  by (auto simp: demo_env_def accepted_state_def socket_init_def MAX_TCPIP_SOCKET_HANDLES_def
      elim: returns_mono)

end
