(* ===== verification/Results.thy ===== *)
theory Results
  imports Socket_Life
begin

text \<open>
  What the calls of \<open>src/socket.c\<close> return and change, as a function of the state they are
  called in and of lwIP's answers.
\<close>

subsection \<open>The connection's functions\<close>

lemma bind_result:
  "TcpIp_Bind env i a (Some port) k =
     (let p = ans_ptr env (tr k @ [Tcp_new_ip_type_any]);
          es = Tcp_new_ip_type_any # (if p = None then [] else [Tcp_bind_any p port])
      in Inr (if p = None \<or> ans_err env (tr k @ es) = ERR_OK then E_OK else E_NOT_OK,
              emits es (k\<lparr>tcpip_raw_pcb := p\<rparr>)))"
  by (auto simp: TcpIp_Bind_def call_ptr_def call_err_def Let_def emit_def emits_def)

lemma listen_result:
  "ensures (TcpIp_TcpListen env i n k) (\<lambda>(r, k'). (r, k') =
    (if \<exists>v < 2. read_pcb_state env (tr k) (tcpip_raw_pcb k) = Inr v then
       let q = ans_ptr env (tr k @ [Tcp_listen (tcpip_raw_pcb k)])
       in (E_OK, emits [Tcp_listen (tcpip_raw_pcb k), Tcp_accept q (Some Fn_raw_accept)]
            (k\<lparr>tcpip_raw_pcb := q\<rparr>))
     else (E_NOT_OK, k)))"
  by (auto simp: TcpIp_TcpListen_def call_ptr_def Let_def read_pcb_state_def emit_def emits_def
      intro!: ensuresI split: option.splits if_splits)

lemma recv_result:
  assumes "core_inv k"
  shows "\<exists>q. rx_content q = None \<and> TcpIp_recv env (Some dst) k =
    (case rx_content (rx k) of
       Some (Some a) \<Rightarrow> rbind (read_packet env (tr k) a dst) (\<lambda>(n, d). Inr (n, Some d, k\<lparr>rx := q\<rparr>))
     | _ \<Rightarrow> Inr (0, Some dst, k\<lparr>rx := q\<rparr>))"
proof (cases "rx_content (rx k)")
  case None
  with pop_inv [OF core_inv_rx(1) [OF assms]] obtain q
    where "pop_pbuf_from_rx_ctrl_blk (rx k) = Inr (None, q)" "rx_content q = None"
    by (auto simp: returns_iff)
  with None show ?thesis by (intro exI [of _ q]) (simp add: TcpIp_recv_def)
next
  case (Some m)
  with core_inv_rx(2) [OF assms] obtain a where "rx_content (rx k) = Some (Some a)" by auto
  with recv_reads [OF core_inv_rx(1) [OF assms] this, of env dst] show ?thesis by auto
qed

lemma send_result:
  "ensures (TcpIp_send env d n k) (\<lambda>(r, k'). (r, k') =
    (case d of
       None \<Rightarrow> (-1, k)
     | Some bytes \<Rightarrow>
         let e = Tcp_write (tcpip_raw_pcb k) bytes n 1
         in (case ans_err env (tr k @ [e]) of ERR_OK \<Rightarrow> 0 | ERR_MEM \<Rightarrow> -2 | _ \<Rightarrow> -3, emit e k)))"
  by (auto simp: TcpIp_send_def call_err_def Let_def intro!: ensuresI split: option.splits err_t.splits)

subsection \<open>The socket calls\<close>

lemma socket_call_result:
  "valid_fd fd s \<Longrightarrow> ensures (socket_call fd s) (\<lambda>(r, s'). (r, s') =
    (0, s\<lparr>TcpIp_Socket_Conn := (TcpIp_Socket_Conn s)[nat fd := (TcpIp_Socket_Conn s ! nat fd)
            \<lparr>SocketFd := fd, SocketId := of_int fd, TcpState := TCPIP_CLOSED\<rparr>],
          TcpIp_No_Socket_Conn := TcpIp_No_Socket_Conn s + 1\<rparr>))"
  by (simp add: socket_call_def Init_valid int_inc_def)

lemma bind_call_result:
  "valid_fd fd s \<Longrightarrow> bind_call env fd port s = Inr
    (if fd_state fd s = TCPIP_CLOSED then
       let p = ans_ptr env (tr (core s) @ [Tcp_new_ip_type_any]);
           es = Tcp_new_ip_type_any # (if p = None then [] else [Tcp_bind_any p port])
       in (if p = None \<or> ans_err env (tr (core s) @ es) = ERR_OK then 0 else -1,
           s\<lparr>core := emits es ((core s)\<lparr>tcpip_raw_pcb := p\<rparr>)\<rparr>)
     else (-1, s))"
  by (simp add: bind_call_def Bind_valid bind_result Let_def)

lemma listen_call_result:
  assumes "valid_fd fd s"
  shows "ensures (listen_call env fd s) (\<lambda>(r, s'). (r, s') =
    (if fd_state fd s \<in> {TCPIP_BIND, TCPIP_LISTEN} then
       let k = core s; p = tcpip_raw_pcb k;
           entry = (\<lambda>st. (TcpIp_Socket_Conn s)[nat fd := (TcpIp_Socket_Conn s ! nat fd)\<lparr>TcpState := st\<rparr>])
       in if \<exists>v < 2. read_pcb_state env (tr k) p = Inr v then
            let q = ans_ptr env (tr k @ [Tcp_listen p])
            in (0, s\<lparr>core := emits [Tcp_listen p, Tcp_accept q (Some Fn_raw_accept)] (k\<lparr>tcpip_raw_pcb := q\<rparr>),
                     TcpIp_Socket_Conn := entry TCPIP_ACCEPT\<rparr>)
          else (-1, s\<lparr>TcpIp_Socket_Conn := entry TCPIP_LISTEN\<rparr>)
     else (-1, s)))"
proof (cases "fd_state fd s \<in> {TCPIP_BIND, TCPIP_LISTEN}")
  case True
  note run = listen_result [of env "SocketId (TcpIp_Socket_Conn s ! nat fd)" 0 "core s"]
  show ?thesis
  proof (cases "\<exists>v < 2. read_pcb_state env (tr (core s)) (tcpip_raw_pcb (core s)) = Inr v")
    case can: True
    with True show ?thesis
      by (auto simp: listen_call_def Listen_valid assms Let_def intro!: ensures_mono [OF run [unfolded if_P [OF can]]])
  next
    case cannot: False
    with True show ?thesis
      by (auto simp: listen_call_def Listen_valid assms Let_def intro!: ensures_mono [OF run [unfolded if_not_P [OF cannot]]])
  qed
next
  case False
  then show ?thesis by (auto simp: listen_call_def Listen_valid assms)
qed

lemma accept_call_result:
  "valid_fd fd s \<Longrightarrow> accept_call fd s = Inr (if fd_state fd s = TCPIP_ACCEPT then 0 else -1, s)"
  by (simp add: accept_call_def Accept_valid)

lemma recv_call_result:
  assumes "valid_fd fd s" and "core_inv (core s)"
  shows "if TCPIP_ACCEPT \<le> fd_state fd s \<and> d \<noteq> None
    then \<exists>q. rx_content q = None \<and> recv_call env fd d n s =
      (case rx_content (rx (core s)) of
         Some (Some a) \<Rightarrow> rbind (read_packet env (tr (core s)) a (the d)) (\<lambda>(r, d').
           Inr (r, Some d', s\<lparr>core := (core s)\<lparr>rx := q\<rparr>\<rparr>))
       | _ \<Rightarrow> Inr (0, d, s\<lparr>core := (core s)\<lparr>rx := q\<rparr>\<rparr>))
    else recv_call env fd d n s = Inr (0, d, s)"
proof (cases d)
  case None
  with assms(1) show ?thesis by (simp add: recv_call_def Recv_valid TcpIp_recv_def)
next
  case (Some dst)
  obtain q where q: "rx_content q = None" "TcpIp_recv env (Some dst) (core s) = (case rx_content (rx (core s)) of
      Some (Some a) \<Rightarrow> rbind (read_packet env (tr (core s)) a dst) (\<lambda>(n, d). Inr (n, Some d, (core s)\<lparr>rx := q\<rparr>))
    | _ \<Rightarrow> Inr (0, Some dst, (core s)\<lparr>rx := q\<rparr>))"
    using recv_result [OF assms(2), of env dst] by blast
  have "recv_call env fd d n s = (case rx_content (rx (core s)) of
         Some (Some a) \<Rightarrow> rbind (read_packet env (tr (core s)) a (the d)) (\<lambda>(r, d').
           Inr (r, Some d', s\<lparr>core := (core s)\<lparr>rx := q\<rparr>\<rparr>))
       | _ \<Rightarrow> Inr (0, d, s\<lparr>core := (core s)\<lparr>rx := q\<rparr>\<rparr>))" if "TCPIP_ACCEPT \<le> fd_state fd s"
    using that by (simp add: recv_call_def Recv_valid assms(1) Some q(2) rbind_assoc case_prod_unfold
        split: option.split)
  with q(1) Some show ?thesis by (auto simp: recv_call_def Recv_valid assms(1))
qed

lemma send_call_result:
  assumes "valid_fd fd s"
  shows "ensures (send_call env fd d n s) (\<lambda>(r, s'). (r, s') =
    (if TCPIP_ACCEPT \<le> fd_state fd s \<and> n \<noteq> 0 then
       (case d of
          None \<Rightarrow> (-1, s)
        | Some bytes \<Rightarrow>
            let e = Tcp_write (tcpip_raw_pcb (core s)) bytes (ucast n) 1
            in (case ans_err env (tr (core s) @ [e]) of ERR_OK \<Rightarrow> 0 | ERR_MEM \<Rightarrow> -2 | _ \<Rightarrow> -3,
                s\<lparr>core := emit e (core s)\<rparr>))
     else (0, s)))"
proof (cases "TCPIP_ACCEPT \<le> fd_state fd s \<and> n \<noteq> 0")
  case True
  then show ?thesis
    by (simp add: send_call_def Send_valid assms word_gt_0)
       (rule ensures_mono [OF send_result], auto simp: Let_def split: option.splits)
next
  case False
  then show ?thesis by (auto simp: send_call_def Send_valid assms word_gt_0)
qed

subsection \<open>Properties\<close>

text \<open>C32: what the six socket calls return and all they change, on every descriptor of the table, in
  every reachable state and for every behaviour of lwIP, when they come back. Opening gives 0, sets
  the entry and counts. Binding gives 0 exactly if the socket was closed and lwIP made no
  connection or bound the one it made; the module's connection is then the answer of the
  allocation, even NULL, and the entry is as before. Listening gives 0 exactly if the socket is
  bound or listening and the module's connection can listen; the entry is then accepted, and the
  module's connection is lwIP's answer; in the other case a bound or listening entry becomes
  listening. Accepting gives 0 exactly if the state is accepted, and changes nothing. Receiving
  into a buffer on an accepted socket empties the queue and reads the packet that waited there,
  or gives 0 and the buffer as it was; otherwise it gives 0 and changes nothing. Sending gives 0
  without any effect on a socket that is not accepted or for a length of 0, -1 without any effect
  for NULL, and else makes one write of the length's low 16 bits, and gives 0, -2 or -3 by lwIP's
  answer.\<close>
theorem results_of_socket_calls:
  assumes "reach (sys_step env) socket_init s" and "0 \<le> fd" and "fd < 512"
    and "c = TcpIp_Socket_Conn s ! nat fd" and "st = TcpState c" and "k = core s"
    and "p = tcpip_raw_pcb k"
  shows "ensures (socket_call fd s) (\<lambda>(r, s'). (r, s') =
      (0, s\<lparr>TcpIp_Socket_Conn := (TcpIp_Socket_Conn s)[nat fd :=
              c\<lparr>SocketFd := fd, SocketId := of_int fd, TcpState := TCPIP_CLOSED\<rparr>],
            TcpIp_No_Socket_Conn := TcpIp_No_Socket_Conn s + 1\<rparr>)) \<and>
    bind_call env fd port s = Inr
      (if st = TCPIP_CLOSED then
         let new = ans_ptr env (tr k @ [Tcp_new_ip_type_any]);
             es = Tcp_new_ip_type_any # (if new = None then [] else [Tcp_bind_any new port])
         in (if new = None \<or> ans_err env (tr k @ es) = ERR_OK then 0 else -1,
             s\<lparr>core := emits es (k\<lparr>tcpip_raw_pcb := new\<rparr>)\<rparr>)
       else (-1, s)) \<and>
    ensures (listen_call env fd s) (\<lambda>(r, s'). (r, s') =
      (if st \<in> {TCPIP_BIND, TCPIP_LISTEN} then
         let entry = (\<lambda>st. (TcpIp_Socket_Conn s)[nat fd := c\<lparr>TcpState := st\<rparr>])
         in if \<exists>v < 2. read_pcb_state env (tr k) p = Inr v then
              let q = ans_ptr env (tr k @ [Tcp_listen p])
              in (0, s\<lparr>core := emits [Tcp_listen p, Tcp_accept q (Some Fn_raw_accept)] (k\<lparr>tcpip_raw_pcb := q\<rparr>),
                       TcpIp_Socket_Conn := entry TCPIP_ACCEPT\<rparr>)
            else (-1, s\<lparr>TcpIp_Socket_Conn := entry TCPIP_LISTEN\<rparr>)
       else (-1, s))) \<and>
    accept_call fd s = Inr (if st = TCPIP_ACCEPT then 0 else -1, s) \<and>
    (if TCPIP_ACCEPT \<le> st \<and> d \<noteq> None
     then \<exists>q. rx_content q = None \<and> recv_call env fd d n s =
       (case rx_content (rx k) of
          Some (Some a) \<Rightarrow> rbind (read_packet env (tr k) a (the d)) (\<lambda>(r, d').
            Inr (r, Some d', s\<lparr>core := k\<lparr>rx := q\<rparr>\<rparr>))
        | _ \<Rightarrow> Inr (0, d, s\<lparr>core := k\<lparr>rx := q\<rparr>\<rparr>))
     else recv_call env fd d n s = Inr (0, d, s)) \<and>
    ensures (send_call env fd d n s) (\<lambda>(r, s'). (r, s') =
      (if TCPIP_ACCEPT \<le> st \<and> n \<noteq> 0 then
         (case d of
            None \<Rightarrow> (-1, s)
          | Some bytes \<Rightarrow>
              let e = Tcp_write p bytes (ucast n) 1
              in (case ans_err env (tr k @ [e]) of ERR_OK \<Rightarrow> 0 | ERR_MEM \<Rightarrow> -2 | _ \<Rightarrow> -3,
                  s\<lparr>core := emit e k\<rparr>))
       else (0, s)))"
proof -
  from sys.reach_inv [OF assms(1)] have inv: "sock_inv s" .
  then have fd: "valid_fd fd s" and core: "core_inv (core s)"
    using assms(2,3) by (simp_all add: sock_inv_valid_fd sock_inv_core)
  show ?thesis
    unfolding assms(4-7)
    by (intro conjI socket_call_result [OF fd] bind_call_result [OF fd]
        listen_call_result [OF fd, unfolded Let_def [of "core s"] Let_def [of "tcpip_raw_pcb _"]]
        accept_call_result [OF fd] recv_call_result [OF fd core] send_call_result [OF fd])
qed

theorem results_of_socket_calls_witness:
  "\<exists>s q. reach (sys_step data_env) socket_init s \<and> rx_content q = None \<and>
     recv_call data_env 0 (Some [0, 0, 0, 0]) 4 s = Inr (3, Some [1, 2, 3, 0], s\<lparr>core := (core s)\<lparr>rx := q\<rparr>\<rparr>)"
proof -
  obtain s where s: "reach (sys_step data_env) socket_init s" "rx_content (rx (core s)) = Some (Some 7)"
    "TcpState (TcpIp_Socket_Conn s ! 0) = TCPIP_ACCEPT"
    using waiting_state_reach by blast
  have "read_packet data_env t 7 [0, 0, 0, 0] = Inr (3, [1, 2, 3, 0])" for t
    by (simp add: read_packet_def data_env_def keep_env_def demo_pbuf_def)
  with results_of_socket_calls [OF s(1) _ _ refl refl refl refl, of 0 0 "Some [0, 0, 0, 0]" 4] s
  have "\<exists>q. rx_content q = None \<and>
      recv_call data_env 0 (Some [0, 0, 0, 0]) 4 s = Inr (3, Some [1, 2, 3, 0], s\<lparr>core := (core s)\<lparr>rx := q\<rparr>\<rparr>)"
    by simp
  with s(1) show ?thesis by blast
qed

end
