(* ===== verification/Rx_Race.thy ===== *)
theory Rx_Race
  imports Rx_Queue "HOL-Library.Sublist"
begin

text \<open>
  \<open>push_to_rx_ctrl_blk\<close> and \<open>pop_pbuf_from_rx_ctrl_blk\<close> of \<open>src/TcpIp.c\<close> as they
  run against each other: lwIP's callback pushes from the task that runs the periodic function,
  the application pops from its own thread, and neither takes a lock. Each call is a program
  counter with the values of its local variables, and a step is one access to the shared
  variables; \<open>++\<close> and \<open>--\<close> are a read and a write. One pusher and one popper, as in the
  code; the scheduler may switch between any two steps.
\<close>

subsection \<open>The two calls, step by step\<close>

text \<open>
  \<open>PScan\<close> and \<open>PTake\<close> are the loop of \<open>get_new_tcpip_mpool\<close>. \<open>l\<close> is
  \<open>p_last_node\<close>, \<open>p\<close> is \<open>p_rxbuf\<close>.
\<close>

datatype push_pc =
    PIdle
  | PRead cptr                              \<comment> \<open>\<open>p_last_node = TcpIp_Rx_CtrlBlk.rx_bufhead\<close>\<close>
  | PScan cptr mpool_ptr nat                \<comment> \<open>is slot \<open>i\<close> of the pool free?\<close>
  | PTake cptr mpool_ptr nat                \<comment> \<open>mark slot \<open>i\<close> as acquired\<close>
  | PLoadCnt cptr mpool_ptr mpool_ptr       \<comment> \<open>read the counter\<close>
  | PStoreCnt cptr mpool_ptr mpool_ptr u16  \<comment> \<open>write it, incremented\<close>
  | PData cptr mpool_ptr mpool_ptr          \<comment> \<open>\<open>p_rxbuf->pbuf = pbuf\<close>\<close>
  | PLink cptr mpool_ptr mpool_ptr          \<comment> \<open>new head, or start the walk\<close>
  | PWalk mpool_ptr                         \<comment> \<open>\<open>p_last_node = p_last_node->next\<close>\<close>

fun push_next :: "push_pc \<Rightarrow> rx_state \<Rightarrow> (push_pc \<times> rx_state) result" where
  "push_next PIdle s = Inr (PIdle, s)"
| "push_next (PRead m) s = Inr (PScan m (rx_head s) 0, s)"
| "push_next (PScan m l i) s =
     Inr (if i < TCPIP_MEM_POOL_SIZE
          then if mp_state (TcpIp_MemPool s ! i) = MPOOL_FREE then PTake m l i
               else PScan m l (i + 1)
          else PIdle, s)"
| "push_next (PTake m l i) s =
     Inr (PLoadCnt m l (Node (int i)), s\<lparr>TcpIp_MemPool :=
       (TcpIp_MemPool s)[i := (TcpIp_MemPool s ! i)\<lparr>mp_state := MPOOL_ACQUIRED\<rparr>]\<rparr>)"
| "push_next (PLoadCnt m l p) s = Inr (PStoreCnt m l p (rx_cnt s), s)"
| "push_next (PStoreCnt m l p c) s =
     Inr (PData m l p, s\<lparr>TcpIp_Rx_CtrlBlk := (TcpIp_Rx_CtrlBlk s)\<lparr>rx_buf_cnt := c + 1\<rparr>\<rparr>)"
| "push_next (PData m l p) s =
     rbind (load_node (TcpIp_MemPool s) p) (\<lambda>n.
     rbind (store_node (TcpIp_MemPool s) p (n\<lparr>mp_pbuf := m\<rparr>)) (\<lambda>pool.
     Inr (PLink m l p, s\<lparr>TcpIp_MemPool := pool\<rparr>)))"
| "push_next (PLink m l p) s =
     Inr (if l = NullNode
          then (PIdle, s\<lparr>TcpIp_Rx_CtrlBlk := (TcpIp_Rx_CtrlBlk s)\<lparr>rx_bufhead := p\<rparr>\<rparr>)
          else (PWalk l, s))"
| "push_next (PWalk q) s =
     rbind (load_node (TcpIp_MemPool s) q) (\<lambda>n.
     Inr (if mp_next n \<noteq> NullNode then PWalk (mp_next n) else PIdle, s))"

text \<open>\<open>h\<close> is \<open>p_head\<close>, \<open>r\<close> is \<open>pbuf\<close>; \<open>QDone r\<close> is about to return.\<close>

datatype pop_pc =
    QIdle
  | QTest                       \<comment> \<open>is the counter zero?\<close>
  | QHead                       \<comment> \<open>\<open>p_head = TcpIp_Rx_CtrlBlk.rx_bufhead\<close>\<close>
  | QData mpool_ptr             \<comment> \<open>\<open>pbuf = p_head->pbuf\<close>\<close>
  | QNext mpool_ptr cptr        \<comment> \<open>\<open>rx_bufhead = p_head->next\<close>\<close>
  | QFree mpool_ptr cptr        \<comment> \<open>\<open>free_tcpip_mpool(p_head)\<close>\<close>
  | QLoadCnt cptr               \<comment> \<open>read the counter\<close>
  | QStoreCnt cptr u16          \<comment> \<open>write it, decremented\<close>
  | QDone cptr

fun pop_next :: "pop_pc \<Rightarrow> rx_state \<Rightarrow> (pop_pc \<times> rx_state) result" where
  "pop_next QIdle s = Inr (QIdle, s)"
| "pop_next QTest s = Inr (if rx_cnt s \<noteq> 0 then QHead else QDone None, s)"
| "pop_next QHead s = Inr (if rx_head s \<noteq> NullNode then QData (rx_head s) else QLoadCnt None, s)"
| "pop_next (QData h) s =
     rbind (load_node (TcpIp_MemPool s) h) (\<lambda>n. Inr (QNext h (mp_pbuf n), s))"
| "pop_next (QNext h r) s =
     rbind (load_node (TcpIp_MemPool s) h) (\<lambda>n.
     Inr (QFree h r, s\<lparr>TcpIp_Rx_CtrlBlk := (TcpIp_Rx_CtrlBlk s)\<lparr>rx_bufhead := mp_next n\<rparr>\<rparr>))"
| "pop_next (QFree h r) s =
     rbind (free_tcpip_mpool h (TcpIp_MemPool s)) (\<lambda>(_, pool).
     Inr (QLoadCnt r, s\<lparr>TcpIp_MemPool := pool\<rparr>))"
| "pop_next (QLoadCnt r) s = Inr (QStoreCnt r (rx_cnt s), s)"
| "pop_next (QStoreCnt r c) s =
     Inr (QDone r, s\<lparr>TcpIp_Rx_CtrlBlk := (TcpIp_Rx_CtrlBlk s)\<lparr>rx_buf_cnt := c - 1\<rparr>\<rparr>)"
| "pop_next (QDone r) s = Inr (QDone r, s)"

subsection \<open>The calls uninterrupted\<close>

text \<open>At most \<open>n\<close> steps of one call: \<open>None\<close> if it has not finished by then.\<close>

primrec push_exec :: "nat \<Rightarrow> push_pc \<Rightarrow> rx_state \<Rightarrow> rx_state result option" where
  "push_exec 0 pc s = (if pc = PIdle then Some (Inr s) else None)"
| "push_exec (Suc n) pc s =
     (if pc = PIdle then Some (Inr s)
      else case push_next pc s of Inl f \<Rightarrow> Some (Inl f) | Inr (pc', s') \<Rightarrow> push_exec n pc' s')"

primrec pop_exec :: "nat \<Rightarrow> pop_pc \<Rightarrow> rx_state \<Rightarrow> (cptr \<times> rx_state) result option" where
  "pop_exec 0 pc s = (case pc of QDone r \<Rightarrow> Some (Inr (r, s)) | _ \<Rightarrow> None)"
| "pop_exec (Suc n) pc s =
     (case pc of QDone r \<Rightarrow> Some (Inr (r, s))
      | _ \<Rightarrow> (case pop_next pc s of Inl f \<Rightarrow> Some (Inl f) | Inr (pc', s') \<Rightarrow> pop_exec n pc' s'))"

lemma push_exec_Suc: "push_exec n pc s = Some r \<Longrightarrow> push_exec (Suc n) pc s = Some r"
proof (induction n arbitrary: pc s)
  case 0
  then show ?case by (simp split: if_splits)
next
  case (Suc n)
  show ?case
  proof (cases "pc = PIdle \<or> (\<exists>f. push_next pc s = Inl f)")
    case True
    with Suc.prems show ?thesis by auto
  next
    case False
    then obtain pc' s' where nx: "push_next pc s = Inr (pc', s')" by (cases "push_next pc s") auto
    with False Suc.prems have "push_exec n pc' s' = Some r" by simp
    then have "push_exec (Suc n) pc' s' = Some r" by (rule Suc.IH)
    with False nx show ?thesis by (simp only: push_exec.simps(2) [of "Suc n"]) simp
  qed
qed

lemma push_exec_mono: "push_exec n pc s = Some r \<Longrightarrow> push_exec (n + k) pc s = Some r"
  by (induction k) (simp_all add: push_exec_Suc del: push_exec.simps)

lemma pop_exec_done [simp]: "pop_exec n (QDone r) s = Some (Inr (r, s))"
  by (cases n) simp_all

lemma pop_exec_step:
  "(\<And>r. pc \<noteq> QDone r) \<Longrightarrow> pop_exec (Suc n) pc s =
     (case pop_next pc s of Inl f \<Rightarrow> Some (Inl f) | Inr (pc', s') \<Rightarrow> pop_exec n pc' s')"
  by (cases pc) auto

lemma pop_exec_Suc: "pop_exec n pc s = Some r \<Longrightarrow> pop_exec (Suc n) pc s = Some r"
proof (induction n arbitrary: pc s)
  case 0
  then show ?case by (auto split: pop_pc.splits)
next
  case (Suc n)
  show ?case
  proof (cases "\<exists>r. pc = QDone r")
    case True
    with Suc.prems show ?thesis by auto
  next
    case False
    then have step: "pop_exec (Suc k) pc s = (case pop_next pc s of
        Inl f \<Rightarrow> Some (Inl f) | Inr (pc', s') \<Rightarrow> pop_exec k pc' s')" for k
      by (intro pop_exec_step) auto
    with Suc.prems Suc.IH show ?thesis
      by (simp only: step) (auto simp del: pop_exec.simps split: sum.splits)
  qed
qed

lemma pop_exec_mono: "pop_exec n pc s = Some r \<Longrightarrow> pop_exec (n + k) pc s = Some r"
  by (induction k) (simp_all add: pop_exec_Suc del: pop_exec.simps)

text \<open>A push first scans at most five slots.\<close>

lemma push_exec_scan:
  "i \<le> j \<Longrightarrow> j < TCPIP_MEM_POOL_SIZE \<Longrightarrow> (\<And>k. k < j \<Longrightarrow> mp_state (TcpIp_MemPool s ! k) \<noteq> MPOOL_FREE) \<Longrightarrow>
     push_exec (n + (j - i)) (PScan m l i) s = push_exec n (PScan m l j) s"
proof (induction "j - i" arbitrary: i)
  case 0
  then show ?case by simp
next
  case (Suc d)
  then have "push_exec (n + (j - Suc i)) (PScan m l (Suc i)) s = push_exec n (PScan m l j) s"
    by (intro Suc.hyps(1)) simp_all
  moreover have "n + (j - i) = Suc (n + (j - Suc i))" using Suc.hyps(2) by simp
  ultimately show ?case using Suc by simp
qed

lemma push_exec_take:
  assumes inv: "rx_inv s" and j: "first_in_state MPOOL_FREE (TcpIp_MemPool s) = Some j"
  shows "push_exec 7 (PScan m (rx_head s) j) s = Some (Inr (push_value m s))"
proof -
  from inv have wf: "pool_wf (TcpIp_MemPool s)" by (simp add: rx_inv_def)
  note len = pool_wf_length [OF wf] and free = first_in_state_SomeD [OF j]
  from inv show ?thesis
  proof (cases rule: rx_inv_cases)
    case empty
    with free len j show ?thesis
      by (simp add: eval_nat_numeral push_value_def)
  next
    case (waiting i)
    with free len j pool_wf_nth [OF wf, of i] pool_wf_nth [OF wf, of j] show ?thesis
      by (simp add: eval_nat_numeral push_value_def nth_list_update)
  qed
qed

lemma push_exec_eq:
  assumes inv: "rx_inv s"
  shows "push_exec (12 + n) (PRead m) s = Some (push_to_rx_ctrl_blk m s)"
proof -
  have "push_exec 12 (PRead m) s = Some (Inr (push_value m s))"
  proof (cases "first_in_state MPOOL_FREE (TcpIp_MemPool s)")
    case None
    then have "\<forall>i<5. mp_state (TcpIp_MemPool s ! i) \<noteq> MPOOL_FREE"
      by (simp add: first_in_state_None TCPIP_MEM_POOL_SIZE_def)
    then show ?thesis
      by (simp add: push_value_full None eval_nat_numeral TCPIP_MEM_POOL_SIZE_def)
  next
    case (Some j)
    note free = first_in_state_SomeD [OF Some]
    then have "push_exec (7 + (j - 0)) (PScan m (rx_head s) 0) s = push_exec 7 (PScan m (rx_head s) j) s"
      by (intro push_exec_scan) simp_all
    then have "push_exec (7 + j) (PScan m (rx_head s) 0) s = Some (Inr (push_value m s))"
      using push_exec_take [OF inv Some] by simp
    then have "push_exec (7 + j + (4 - j)) (PScan m (rx_head s) 0) s = Some (Inr (push_value m s))"
      by (rule push_exec_mono)
    moreover have "7 + j + (4 - j) = 11" using free by (simp add: TCPIP_MEM_POOL_SIZE_def)
    ultimately have "push_exec 11 (PScan m (rx_head s) 0) s = Some (Inr (push_value m s))" by simp
    moreover have "(12 :: nat) = Suc 11" by simp
    ultimately show ?thesis by (simp only: push_exec.simps push_next.simps) simp
  qed
  with push_exec_mono [of 12 "PRead m" s _ n] push_eq [OF inv] show ?thesis by simp
qed

lemma pop_exec_eq: "pop_exec (7 + n) QTest s = Some (pop_pbuf_from_rx_ctrl_blk s)"
proof -
  have "pop_exec 7 QTest s = Some (pop_pbuf_from_rx_ctrl_blk s)"
    by (cases "load_node (TcpIp_MemPool s) (rx_head s)";
        cases "free_tcpip_mpool (rx_head s) (TcpIp_MemPool s)")
      (auto simp: eval_nat_numeral pop_pbuf_from_rx_ctrl_blk_def Let_def)
  then show ?thesis by (rule pop_exec_mono)
qed

subsection \<open>Both calls interleaved\<close>

text \<open>
  The shared variables, where each side has got to, and two history variables: the packets
  given to \<open>push_to_rx_ctrl_blk\<close> so far, and the packets returned by
  \<open>pop_pbuf_from_rx_ctrl_blk\<close>. The packets are not NULL, as in \<open>tcpip_raw_recv\<close>.
\<close>

record race =
  shared :: rx_state
  pusher :: push_pc
  popper :: pop_pc
  given :: "nat list"
  taken :: "nat list"

definition race_init :: race where
  "race_init = \<lparr>shared = rx_init, pusher = PIdle, popper = QIdle, given = [], taken = []\<rparr>"

datatype move = Call_push nat | Push_moves | Call_pop | Pop_moves | Pop_returns

definition pop_done :: "pop_pc \<Rightarrow> bool" where
  "pop_done q \<longleftrightarrow> (case q of QIdle \<Rightarrow> True | QDone r \<Rightarrow> True | _ \<Rightarrow> False)"

fun race_move :: "move \<Rightarrow> race \<Rightarrow> race result option" where
  "race_move (Call_push a) s =
     (if pusher s = PIdle
      then Some (Inr (s\<lparr>pusher := PRead (Some a), given := given s @ [a]\<rparr>)) else None)"
| "race_move Push_moves s =
     (if pusher s = PIdle then None
      else Some (rbind (push_next (pusher s) (shared s)) (\<lambda>(pc, r).
             Inr (s\<lparr>pusher := pc, shared := r\<rparr>))))"
| "race_move Call_pop s =
     (if popper s = QIdle then Some (Inr (s\<lparr>popper := QTest\<rparr>)) else None)"
| "race_move Pop_moves s =
     (if pop_done (popper s) then None
      else Some (rbind (pop_next (popper s) (shared s)) (\<lambda>(pc, r).
             Inr (s\<lparr>popper := pc, shared := r\<rparr>))))"
| "race_move Pop_returns s =
     (case popper s of
        QDone r \<Rightarrow> Some (Inr (s\<lparr>popper := QIdle, taken := taken s @ opt_list r\<rparr>))
      | _ \<Rightarrow> None)"

inductive race_step :: "race \<Rightarrow> move \<Rightarrow> race \<Rightarrow> bool" where
  race_stepI: "race_move m s = Some (Inr s') \<Longrightarrow> race_step s m s'"

inductive_cases race_stepE: "race_step s m s'"

fun race_run :: "move list \<Rightarrow> race \<Rightarrow> race result option" where
  "race_run [] s = Some (Inr s)"
| "race_run (m # ms) s =
     (case race_move m s of
        None \<Rightarrow> None
      | Some (Inl f) \<Rightarrow> Some (Inl f)
      | Some (Inr s') \<Rightarrow> race_run ms s')"

lemma race_run_reach: "race_run ms s = Some (Inr s') \<Longrightarrow> reach race_step s s'"
proof (induction ms arbitrary: s)
  case Nil
  then show ?case by (simp add: reach_init)
next
  case (Cons m ms)
  then obtain t where "race_move m s = Some (Inr t)" "race_run ms t = Some (Inr s')"
    by (auto split: option.splits sum.splits)
  then show ?case using Cons.IH [of t] by (blast intro: reach_trans reach_one race_stepI)
qed

subsection \<open>The invariant of the interleaving\<close>

abbreviation pool_of :: "race \<Rightarrow> mem_pool" where
  "pool_of s \<equiv> TcpIp_MemPool (shared s)"

text \<open>A node of the pool; a node that is in use.\<close>

definition node_ok :: "mpool_ptr \<Rightarrow> bool" where
  "node_ok p \<longleftrightarrow> (\<exists>i<TCPIP_MEM_POOL_SIZE. p = Node (int i))"

definition node_used :: "mem_pool \<Rightarrow> mpool_ptr \<Rightarrow> bool" where
  "node_used pool p \<longleftrightarrow> (\<exists>i<TCPIP_MEM_POOL_SIZE. p = Node (int i) \<and> mp_state (pool ! i) = MPOOL_ACQUIRED)"

text \<open>The node each side holds outside the list; the packet each side has in hand.\<close>

fun pending :: "push_pc \<Rightarrow> cptr" where
  "pending (PRead m) = m"
| "pending (PScan m l i) = m"
| "pending (PTake m l i) = m"
| "pending (PLoadCnt m l p) = m"
| "pending (PStoreCnt m l p c) = m"
| "pending (PData m l p) = m"
| "pending (PLink m l p) = m"
| "pending _ = None"

fun pop_holds :: "pop_pc \<Rightarrow> mpool_ptr" where
  "pop_holds (QFree h r) = h"
| "pop_holds _ = NullNode"

fun in_hand :: "pop_pc \<Rightarrow> cptr" where
  "in_hand (QFree h r) = r"
| "in_hand (QLoadCnt r) = r"
| "in_hand (QStoreCnt r c) = r"
| "in_hand (QDone r) = r"
| "in_hand _ = None"

definition waiting :: "rx_state \<Rightarrow> cptr" where
  "waiting s = (case rx_head s of NullNode \<Rightarrow> None | Node k \<Rightarrow> mp_pbuf (TcpIp_MemPool s ! nat k))"

text \<open>
  What the pusher relies on: if it saw an empty list the list is still empty, and the node it
  filled is its own. What the popper relies on: the head it saw is still the head.
\<close>

definition last_ok :: "rx_state \<Rightarrow> mpool_ptr \<Rightarrow> bool" where
  "last_ok s l \<longleftrightarrow> (if l = NullNode then rx_head s = NullNode else node_ok l)"

definition mine :: "rx_state \<Rightarrow> mpool_ptr \<Rightarrow> mpool_ptr \<Rightarrow> bool" where
  "mine s h p \<longleftrightarrow> node_used (TcpIp_MemPool s) p \<and> p \<noteq> rx_head s \<and> p \<noteq> h"

fun push_ok :: "rx_state \<Rightarrow> mpool_ptr \<Rightarrow> push_pc \<Rightarrow> bool" where
  "push_ok s h (PScan m l i) \<longleftrightarrow> last_ok s l"
| "push_ok s h (PTake m l i) \<longleftrightarrow>
     last_ok s l \<and> i < TCPIP_MEM_POOL_SIZE \<and> mp_state (TcpIp_MemPool s ! i) = MPOOL_FREE"
| "push_ok s h (PLoadCnt m l p) \<longleftrightarrow> last_ok s l \<and> mine s h p"
| "push_ok s h (PStoreCnt m l p c) \<longleftrightarrow> last_ok s l \<and> mine s h p"
| "push_ok s h (PData m l p) \<longleftrightarrow> last_ok s l \<and> mine s h p"
| "push_ok s h (PLink m l p) \<longleftrightarrow> last_ok s l \<and> mine s h p \<and>
     (\<forall>i. p = Node (int i) \<longrightarrow> mp_pbuf (TcpIp_MemPool s ! i) = m)"
| "push_ok s h (PWalk q) \<longleftrightarrow> node_ok q"
| "push_ok s h _ \<longleftrightarrow> True"

fun pop_ok :: "rx_state \<Rightarrow> pop_pc \<Rightarrow> bool" where
  "pop_ok s (QData h) \<longleftrightarrow> h = rx_head s \<and> h \<noteq> NullNode"
| "pop_ok s (QNext h r) \<longleftrightarrow> h = rx_head s \<and> h \<noteq> NullNode \<and> r = waiting s"
| "pop_ok s (QFree h r) \<longleftrightarrow> node_used (TcpIp_MemPool s) h \<and> h \<noteq> rx_head s"
| "pop_ok s _ \<longleftrightarrow> True"

definition shared_ok :: "rx_state \<Rightarrow> push_pc \<Rightarrow> pop_pc \<Rightarrow> bool" where
  "shared_ok s pc q \<longleftrightarrow> pool_wf (TcpIp_MemPool s) \<and>
     (rx_head s = NullNode \<or> node_used (TcpIp_MemPool s) (rx_head s)) \<and>
     push_ok s (pop_holds q) pc \<and> pop_ok s q"

definition history_ok :: "nat list \<Rightarrow> nat list \<Rightarrow> rx_state \<Rightarrow> push_pc \<Rightarrow> pop_pc \<Rightarrow> bool" where
  "history_ok giv tak s pc q \<longleftrightarrow> (\<exists>prior. giv = prior @ opt_list (pending pc) \<and>
     subseq (tak @ opt_list (in_hand q) @ opt_list (waiting s)) prior)"

definition race_inv :: "race \<Rightarrow> bool" where
  "race_inv s \<longleftrightarrow> shared_ok (shared s) (pusher s) (popper s) \<and>
     history_ok (given s) (taken s) (shared s) (pusher s) (popper s)"

lemmas ok_defs = shared_ok_def last_ok_def mine_def node_ok_def node_used_def

lemma race_inv_init: "race_inv race_init"
  by (simp add: race_inv_def race_init_def shared_ok_def history_ok_def waiting_def rx_init_def)

text \<open>The counter plays no part in it.\<close>

lemma counter_frame [simp]:
  fixes s :: rx_state and c :: u16
  shows "waiting (s\<lparr>TcpIp_Rx_CtrlBlk := (TcpIp_Rx_CtrlBlk s)\<lparr>rx_buf_cnt := c\<rparr>\<rparr>) = waiting s"
    "last_ok (s\<lparr>TcpIp_Rx_CtrlBlk := (TcpIp_Rx_CtrlBlk s)\<lparr>rx_buf_cnt := c\<rparr>\<rparr>) l = last_ok s l"
    "mine (s\<lparr>TcpIp_Rx_CtrlBlk := (TcpIp_Rx_CtrlBlk s)\<lparr>rx_buf_cnt := c\<rparr>\<rparr>) h p = mine s h p"
  by (simp_all add: waiting_def last_ok_def mine_def split: mpool_ptr.split)

lemma counter_frame_ok [simp]:
  fixes s :: rx_state and c :: u16
  shows "pop_ok (s\<lparr>TcpIp_Rx_CtrlBlk := (TcpIp_Rx_CtrlBlk s)\<lparr>rx_buf_cnt := c\<rparr>\<rparr>) q = pop_ok s q"
    "push_ok (s\<lparr>TcpIp_Rx_CtrlBlk := (TcpIp_Rx_CtrlBlk s)\<lparr>rx_buf_cnt := c\<rparr>\<rparr>) h pc = push_ok s h pc"
   by (cases q; simp) (cases pc; simp)

lemma push_next_shared:
  assumes "shared_ok s pc q"
  shows "returns (push_next pc s) (\<lambda>(pc', s'). shared_ok s' pc' q)"
proof -
  from assms have wf: "pool_wf (TcpIp_MemPool s)" by (simp add: shared_ok_def)
  note len = pool_wf_length [OF wf] and nth = pool_wf_nth [OF wf]
  show ?thesis
  proof (cases pc)
    case (PTake m l i)
    with assms len nth [of i] show ?thesis
      by (cases q) (auto simp: ok_defs nth_list_update pool_wf_update waiting_def)
  next
    case (PData m l p)
    with assms obtain i where p: "p = Node (int i)" "i < TCPIP_MEM_POOL_SIZE"
      by (auto simp: ok_defs)
    with PData assms len nth [of i] show ?thesis
      by (cases q) (auto simp: ok_defs nth_list_update pool_wf_update waiting_def)
  next
    case (PLink m l p)
    with assms len show ?thesis
      by (cases q) (auto simp: ok_defs waiting_def)
  next
    case (PStoreCnt m l p c)
    with assms show ?thesis by (simp add: shared_ok_def)
  next
    case (PWalk p)
    with assms len nth show ?thesis by (auto simp: ok_defs)
  qed (use assms len in \<open>auto simp: ok_defs\<close>)
qed

lemma pop_next_shared:
  assumes "shared_ok s pc q"
  shows "returns (pop_next q s) (\<lambda>(q', s'). shared_ok s' pc q')"
proof -
  from assms have wf: "pool_wf (TcpIp_MemPool s)" by (simp add: shared_ok_def)
  note len = pool_wf_length [OF wf] and nth = pool_wf_nth [OF wf]
  show ?thesis
  proof (cases q)
    case (QData h)
    with assms len show ?thesis
      by (cases pc) (auto simp: ok_defs waiting_def)
  next
    case (QNext h r)
    with assms len nth show ?thesis
      by (cases pc) (auto simp: ok_defs)
  next
    case (QFree h r)
    with assms obtain i where h: "h = Node (int i)" "i < TCPIP_MEM_POOL_SIZE"
      by (auto simp: ok_defs)
    with QFree assms len nth [of i] show ?thesis
      by (cases pc) (auto simp: ok_defs free_tcpip_mpool_def in_mpool_range_def nth_list_update
          pool_wf_update)
  next
    case (QStoreCnt r c)
    with assms show ?thesis by (simp add: shared_ok_def)
  next
    case QHead
    with assms show ?thesis by (cases pc) (auto simp: shared_ok_def)
  qed (use assms in \<open>cases pc; auto simp: shared_ok_def\<close>)+
qed

text \<open>What is waiting changes only when a new head is stored and when the head is taken.\<close>

lemma push_next_history:
  assumes ok: "shared_ok s pc q" and nx: "push_next pc s = Inr (pc', s')"
    and hist: "history_ok giv tak s pc q"
  shows "history_ok giv tak s' pc' q"
proof -
  from ok have wf: "pool_wf (TcpIp_MemPool s)" by (simp add: shared_ok_def)
  note len = pool_wf_length [OF wf]
  from hist obtain prior where prior: "giv = prior @ opt_list (pending pc)"
    "subseq (tak @ opt_list (in_hand q) @ opt_list (waiting s)) prior"
    by (auto simp: history_ok_def)
  consider (same) "waiting s' = waiting s" "pending pc' = pending pc"
    | (drop) "waiting s' = waiting s" "pending pc' = None"
    | (link) "waiting s = None" "waiting s' = pending pc" "pending pc' = None"
  proof (cases pc)
    case (PTake m l i)
    with ok nx len show thesis
      by (intro same) (auto simp: waiting_def nth_list_update ok_defs split: mpool_ptr.splits)
  next
    case (PData m l p)
    with ok nx len show thesis
      by (intro same) (auto simp: waiting_def nth_list_update ok_defs split: mpool_ptr.splits)
  next
    case (PScan m l i)
    with nx show thesis by (auto split: if_splits intro: same drop)
  next
    case (PLink m l p)
    show thesis
    proof (cases "l = NullNode")
      case True
      with PLink ok nx show thesis by (intro link) (auto simp: waiting_def ok_defs)
    next
      case False
      with PLink nx show thesis by (intro drop) auto
    qed
  qed (use nx in \<open>auto intro: same drop split: if_splits\<close>)
  then show ?thesis
  proof cases
    case same
    with prior show ?thesis by (auto simp: history_ok_def)
  next
    case drop
    have "subseq (tak @ opt_list (in_hand q) @ opt_list (waiting s')) (prior @ opt_list (pending pc))"
      using prior(2) drop(1) by (simp add: subseq_rev_drop_many)
    with prior(1) drop show ?thesis by (auto simp: history_ok_def)
  next
    case link
    have "subseq (tak @ opt_list (in_hand q) @ opt_list (waiting s')) (prior @ opt_list (pending pc))"
      using list_emb_append_mono [OF prior(2), of "opt_list (pending pc)" "opt_list (pending pc)"]
      by (simp add: link)
    with prior(1) link(3) show ?thesis by (auto simp: history_ok_def)
  qed
qed

lemma pop_next_history:
  assumes ok: "shared_ok s pc q" and nx: "pop_next q s = Inr (q', s')"
    and hist: "history_ok giv tak s pc q"
  shows "history_ok giv tak s' pc q'"
proof -
  from ok have wf: "pool_wf (TcpIp_MemPool s)" by (simp add: shared_ok_def)
  note len = pool_wf_length [OF wf] and nth = pool_wf_nth [OF wf]
  have "opt_list (in_hand q') @ opt_list (waiting s') = opt_list (in_hand q) @ opt_list (waiting s)"
  proof (cases q)
    case (QNext h r)
    with ok nx len nth show ?thesis by (auto simp: waiting_def ok_defs)
  next
    case (QFree h r)
    with ok nx len show ?thesis
      by (auto simp: waiting_def ok_defs free_tcpip_mpool_def in_mpool_range_def nth_list_update
          split: mpool_ptr.splits)
  qed (use nx in \<open>auto split: if_splits\<close>)
  with hist show ?thesis by (simp add: history_ok_def)
qed

lemma race_step_keeps:
  assumes "race_inv s" and "race_step s m s'"
  shows "race_inv s'"
proof -
  from assms(2) have m: "race_move m s = Some (Inr s')" by (auto elim: race_stepE)
  from assms(1) have ok: "shared_ok (shared s) (pusher s) (popper s)"
    and hist: "history_ok (given s) (taken s) (shared s) (pusher s) (popper s)"
    by (simp_all add: race_inv_def)
  show ?thesis
  proof (cases m)
    case (Call_push a)
    with m ok hist show ?thesis
      by (auto simp: race_inv_def shared_ok_def history_ok_def split: if_splits)
  next
    case Push_moves
    with m push_next_shared [OF ok] push_next_history [OF ok _ hist] show ?thesis
      by (auto simp: race_inv_def split: if_splits)
  next
    case Call_pop
    with m ok hist show ?thesis
      by (cases "pusher s") (auto simp: race_inv_def shared_ok_def history_ok_def split: if_splits)
  next
    case Pop_moves
    with m pop_next_shared [OF ok] pop_next_history [OF ok _ hist] show ?thesis
      by (auto simp: race_inv_def split: if_splits)
  next
    case Pop_returns
    with m ok hist show ?thesis
      by (cases "pusher s")
         (auto simp: race_inv_def shared_ok_def history_ok_def split: pop_pc.splits)
  qed
qed

interpretation rc: step_invariant race_step race_init race_inv
  by unfold_locales (auto simp: race_inv_init intro: race_step_keeps)

subsection \<open>How many steps a call takes\<close>

fun push_rank :: "push_pc \<Rightarrow> nat" where
  "push_rank PIdle = 0"
| "push_rank (PRead m) = 12"
| "push_rank (PScan m l i) = 6 + (TCPIP_MEM_POOL_SIZE - i)"
| "push_rank (PTake m l i) = 6"
| "push_rank (PLoadCnt m l p) = 5"
| "push_rank (PStoreCnt m l p c) = 4"
| "push_rank (PData m l p) = 3"
| "push_rank (PLink m l p) = 2"
| "push_rank (PWalk q) = 1"

fun pop_rank :: "pop_pc \<Rightarrow> nat" where
  "pop_rank QIdle = 0"
| "pop_rank QTest = 7"
| "pop_rank QHead = 6"
| "pop_rank (QData h) = 5"
| "pop_rank (QNext h r) = 4"
| "pop_rank (QFree h r) = 3"
| "pop_rank (QLoadCnt r) = 2"
| "pop_rank (QStoreCnt r c) = 1"
| "pop_rank (QDone r) = 0"

lemma push_rank_bound: "push_rank pc \<le> 12"
  by (cases pc) (simp_all add: TCPIP_MEM_POOL_SIZE_def)

lemma pop_rank_bound: "pop_rank pc \<le> 7"
  by (cases pc) simp_all

lemma push_rank_down:
  assumes "shared_ok s pc q" and "pc \<noteq> PIdle" and "push_next pc s = Inr (pc', s')"
  shows "push_rank pc' < push_rank pc"
proof (cases pc)
  case (PWalk p)
  from assms(1) have wf: "pool_wf (TcpIp_MemPool s)" by (simp add: shared_ok_def)
  with PWalk assms pool_wf_length [OF wf] pool_wf_nth [OF wf] show ?thesis by (auto simp: ok_defs)
qed (use assms in \<open>auto simp: TCPIP_MEM_POOL_SIZE_def split: if_splits\<close>)

lemma pop_rank_down:
  "pop_next q s = Inr (q', s') \<Longrightarrow> \<not> pop_done q \<Longrightarrow> pop_rank q' < pop_rank q"
  by (cases q) (auto simp: pop_done_def split: if_splits)

lemma push_moves_bounded:
  "race_inv s \<Longrightarrow> race_run ms s = Some (Inr s') \<Longrightarrow> (\<And>a. Call_push a \<notin> set ms) \<Longrightarrow>
     count_list ms Push_moves + push_rank (pusher s') \<le> push_rank (pusher s)"
proof (induction ms arbitrary: s)
  case Nil
  then show ?case by simp
next
  case (Cons m ms)
  then obtain t where t: "race_move m s = Some (Inr t)" "race_run ms t = Some (Inr s')"
    by (auto split: option.splits sum.splits)
  then have inv: "race_inv t" using Cons.prems(1) by (blast intro: race_step_keeps race_stepI)
  have IH: "count_list ms Push_moves + push_rank (pusher s') \<le> push_rank (pusher t)"
    using Cons.prems(3) by (intro Cons.IH [OF inv t(2)]) auto
  have "(if m = Push_moves then 1 else 0) + push_rank (pusher t) \<le> push_rank (pusher s)"
  proof (cases m)
    case (Call_push a)
    with Cons.prems(3) [of a] show ?thesis by simp
  next
    case Push_moves
    with t(1) Cons.prems(1) push_rank_down [of "shared s" "pusher s" "popper s"] show ?thesis
      by (fastforce simp: race_inv_def Suc_le_eq split: if_splits)
  qed (use t(1) in \<open>auto split: if_splits pop_pc.splits\<close>)
  with IH show ?case by (cases "m = Push_moves") simp_all
qed

lemma pop_moves_bounded:
  "race_run ms s = Some (Inr s') \<Longrightarrow> Call_pop \<notin> set ms \<Longrightarrow>
     count_list ms Pop_moves + pop_rank (popper s') \<le> pop_rank (popper s)"
proof (induction ms arbitrary: s)
  case Nil
  then show ?case by simp
next
  case (Cons m ms)
  then obtain t where t: "race_move m s = Some (Inr t)" "race_run ms t = Some (Inr s')"
    by (auto split: option.splits sum.splits)
  have IH: "count_list ms Pop_moves + pop_rank (popper s') \<le> pop_rank (popper t)"
    using Cons.prems(2) by (intro Cons.IH [OF t(2)]) auto
  have "(if m = Pop_moves then 1 else 0) + pop_rank (popper t) \<le> pop_rank (popper s)"
  proof (cases m)
    case Pop_moves
    with t(1) pop_rank_down [of "popper s" "shared s"] show ?thesis
      by (fastforce simp: Suc_le_eq split: if_splits)
  qed (use t(1) Cons.prems(2) in \<open>auto split: if_splits pop_pc.splits\<close>)
  with IH show ?case by (cases "m = Pop_moves") simp_all
qed

subsection \<open>Properties\<close>

text \<open>C27: run without interruption, the steps of each call are the call: in every reachable state of
  the control block a push finishes within twelve steps with the result of
  \<open>push_to_rx_ctrl_blk\<close>, and in any state at all a pop finishes within seven with the
  result, fault or not, of \<open>pop_pbuf_from_rx_ctrl_blk\<close>.\<close>
theorem steps_equal_calls:
  assumes "reach rx_step rx_init s"
  shows "push_exec (12 + n) (PRead m) s = Some (push_to_rx_ctrl_blk m s) \<and>
    pop_exec (7 + n) QTest t = Some (pop_pbuf_from_rx_ctrl_blk t)"
  using push_exec_eq [OF rxs.reach_inv [OF assms]] pop_exec_eq by blast

theorem steps_equal_calls_witness:
  "push_exec 12 (PRead (Some 7)) rx_init = Some (push_to_rx_ctrl_blk (Some 7) rx_init)"
  using steps_equal_calls [OF reach_init, of 0 "Some 7"] by simp

text \<open>C5: under every interleaving of the two calls no step faults (no access outside the pool, no
  NULL dereference), the pool stays well formed, the head is NULL or a slot in use, and nothing
  is invented, duplicated or reordered: the packets the application has received are a
  subsequence of the packets that were pushed.\<close>
theorem interleavings_safe_and_ordered:
  assumes "reach race_step race_init s"
  shows "race_move m s \<noteq> Some (Inl f) \<and> subseq (taken s) (given s) \<and>
    pool_wf (TcpIp_MemPool (shared s)) \<and>
    (rx_bufhead (TcpIp_Rx_CtrlBlk (shared s)) = NullNode \<or>
      (\<exists>i \<in> owned (TcpIp_MemPool (shared s)). rx_bufhead (TcpIp_Rx_CtrlBlk (shared s)) = Node (int i)))"
proof -
  from rc.reach_inv [OF assms] have ok: "shared_ok (shared s) (pusher s) (popper s)"
    and hist: "history_ok (given s) (taken s) (shared s) (pusher s) (popper s)"
    by (simp_all add: race_inv_def)
  have "race_move m s \<noteq> Some (Inl f)"
    using push_next_shared [OF ok] pop_next_shared [OF ok]
    by (cases m) (auto simp: returns_iff split: pop_pc.splits)
  moreover from hist have "subseq (taken s) (given s)"
    by (auto simp: history_ok_def dest!: list_emb_appendD intro: subseq_order.trans
        subseq_rev_drop_many)
  moreover from ok have "pool_wf (TcpIp_MemPool (shared s))" by (simp add: shared_ok_def)
  ultimately show ?thesis using ok
    by (auto simp: shared_ok_def node_used_def owned_def)
qed

theorem interleavings_safe_and_ordered_witness:
  "race_move (Call_push 7) race_init \<noteq> Some (Inl NullDeref) \<and> subseq (taken race_init) (given race_init)"
  using interleavings_safe_and_ordered [OF reach_init, of "Call_push 7" NullDeref] by blast

text \<open>The schedule of the next property: the pop runs between the counter and the head of the push.\<close>

definition stranding :: "nat \<Rightarrow> move list" where
  "stranding a = [Call_push a, Push_moves, Push_moves, Push_moves, Push_moves, Push_moves,
     Call_pop, Pop_moves, Pop_moves, Pop_moves, Pop_moves, Pop_returns, Push_moves, Push_moves]"

lemma stranding_run:
  "\<exists>s. race_run (stranding a) race_init = Some (Inr s) \<and> pusher s = PIdle \<and> popper s = QIdle \<and>
     given s = [a] \<and> taken s = [] \<and> shared s = \<lparr>TcpIp_MemPool = TcpIp_MemPool_init
       [0 := (TcpIp_MemPool_init ! 0)\<lparr>mp_pbuf := Some a, mp_state := MPOOL_ACQUIRED\<rparr>],
       TcpIp_Rx_CtrlBlk = \<lparr>rx_buf_cnt = 0, rx_bufhead = Node 0\<rparr>\<rparr>"
  by (simp add: stranding_def race_init_def rx_init_def TcpIp_MemPool_init_def
      TCPIP_MEM_POOL_SIZE_def pop_done_def eval_nat_numeral load_node_def store_node_def)

text \<open>While the counter is zero, reads find nothing, whatever is in the list.\<close>

lemma blind_reads:
  "rx_cnt s = 0 \<Longrightarrow> box_run push_to_rx_ctrl_blk pop_pbuf_from_rx_ctrl_blk (replicate n Get) s =
     Inr (replicate n None, s)"
  by (induction n) (simp_all add: pop_pbuf_from_rx_ctrl_blk_def)

text \<open>The next push counts the stranded packet in again, and is lost itself.\<close>

lemma stranded_displaces:
  assumes "TcpIp_MemPool s = TcpIp_MemPool_init
      [0 := (TcpIp_MemPool_init ! 0)\<lparr>mp_pbuf := Some a, mp_state := MPOOL_ACQUIRED\<rparr>]"
    and "TcpIp_Rx_CtrlBlk s = \<lparr>rx_buf_cnt = 0, rx_bufhead = Node 0\<rparr>"
  shows "returns (box_run push_to_rx_ctrl_blk pop_pbuf_from_rx_ctrl_blk [Put m, Get, Get] s)
    (\<lambda>(out, s'). out = [Some a, None])"
  using assms
  by (simp add: push_to_rx_ctrl_blk_def pop_pbuf_from_rx_ctrl_blk_def get_new_tcpip_mpool_def
      get_new_loop.simps walk_to_end.simps TcpIp_MemPool_init_def TCPIP_MEM_POOL_SIZE_def
      load_node_def store_node_def free_tcpip_mpool_def in_mpool_range_def eval_nat_numeral Let_def)

text \<open>C8: without a lock the two calls can strand a packet. There is a schedule of one push and one
  pop after which both calls have returned and the packet is in the list but the counter is
  zero: however often the application reads, it gets nothing, and the control block is in a
  state that no sequence of whole calls leads to. The packet comes out only after another one is
  pushed, which is lost in its place.\<close>
theorem race_strands_packet:
  "\<exists>s. reach race_step race_init s \<and> pusher s = PIdle \<and> popper s = QIdle \<and>
     given s = [a] \<and> taken s = [] \<and> rx_content (shared s) = Some (Some a) \<and>
     (\<forall>n. box_run push_to_rx_ctrl_blk pop_pbuf_from_rx_ctrl_blk (replicate n Get) (shared s) =
        Inr (replicate n None, shared s)) \<and>
     \<not> reach rx_step rx_init (shared s) \<and>
     (\<forall>m. returns (box_run push_to_rx_ctrl_blk pop_pbuf_from_rx_ctrl_blk [Put m, Get, Get] (shared s))
        (\<lambda>(out, s'). out = [Some a, None]))"
proof -
  from stranding_run [of a] obtain s where s: "race_run (stranding a) race_init = Some (Inr s)"
    "pusher s = PIdle" "popper s = QIdle" "given s = [a]" "taken s = []"
    "shared s = \<lparr>TcpIp_MemPool = TcpIp_MemPool_init
       [0 := (TcpIp_MemPool_init ! 0)\<lparr>mp_pbuf := Some a, mp_state := MPOOL_ACQUIRED\<rparr>],
       TcpIp_Rx_CtrlBlk = \<lparr>rx_buf_cnt = 0, rx_bufhead = Node 0\<rparr>\<rparr>" by blast
  then have c: "rx_content (shared s) = Some (Some a)" "rx_cnt (shared s) = 0"
    by (simp_all add: rx_content_def TcpIp_MemPool_init_def TCPIP_MEM_POOL_SIZE_def)
  then have "\<not> rx_inv (shared s)"
    by (auto simp: rx_inv_def rx_content_def split: mpool_ptr.splits)
  then have "\<not> reach rx_step rx_init (shared s)" using rxs.reach_inv by blast
  moreover have "returns (box_run push_to_rx_ctrl_blk pop_pbuf_from_rx_ctrl_blk [Put m, Get, Get] (shared s))
      (\<lambda>(out, s'). out = [Some a, None])" for m
    by (rule stranded_displaces) (simp_all add: s(6))
  ultimately show ?thesis
    using s c race_run_reach [OF s(1)] by (intro exI [of _ s]) (auto simp only: blind_reads)
qed

text \<open>C28: both calls are free of waiting: in every state the scheduler can lead to, a call that has
  started can take its next step, and whatever the other side does in between, a push takes at
  most twelve steps and a pop at most seven before it has returned.\<close>
theorem calls_are_wait_free:
  assumes "reach race_step race_init s" and "race_run ms s = Some (Inr s')"
  shows "(pusher s \<noteq> PIdle \<longrightarrow> (\<exists>t. race_move Push_moves s = Some (Inr t))) \<and>
    (\<not> pop_done (popper s) \<longrightarrow> (\<exists>t. race_move Pop_moves s = Some (Inr t))) \<and>
    ((\<forall>a. Call_push a \<notin> set ms) \<longrightarrow> count_list ms Push_moves \<le> 12 \<and>
      (count_list ms Push_moves = 12 \<longrightarrow> pusher s' = PIdle)) \<and>
    (Call_pop \<notin> set ms \<longrightarrow> count_list ms Pop_moves \<le> 7 \<and>
      (count_list ms Pop_moves = 7 \<longrightarrow> pop_done (popper s')))"
proof -
  from rc.reach_inv [OF assms(1)] have inv: "race_inv s" .
  then have ok: "shared_ok (shared s) (pusher s) (popper s)" by (simp add: race_inv_def)
  have "pusher s' = PIdle" if "push_rank (pusher s') = 0"
    using that by (cases "pusher s'") simp_all
  moreover have "pop_done (popper s')" if "pop_rank (popper s') = 0"
    using that by (cases "popper s'") (simp_all add: pop_done_def)
  moreover have "pusher s \<noteq> PIdle \<longrightarrow> (\<exists>t. race_move Push_moves s = Some (Inr t))"
    using push_next_shared [OF ok] by (auto simp: returns_iff)
  moreover have "\<not> pop_done (popper s) \<longrightarrow> (\<exists>t. race_move Pop_moves s = Some (Inr t))"
    using pop_next_shared [OF ok] by (auto simp: returns_iff)
  ultimately show ?thesis
    using push_moves_bounded [OF inv assms(2)] pop_moves_bounded [OF assms(2)]
      push_rank_bound [of "pusher s"] pop_rank_bound [of "popper s"]
    by fastforce
qed

theorem calls_are_wait_free_witness:
  "\<exists>s. race_run [Call_push 7] race_init = Some (Inr s) \<and>
     (\<forall>ms s'. race_run ms s = Some (Inr s') \<longrightarrow> (\<forall>a. Call_push a \<notin> set ms) \<longrightarrow>
        count_list ms Push_moves \<le> 12)"
proof -
  obtain s where s: "race_run [Call_push 7] race_init = Some (Inr s)"
    by (simp add: race_init_def)
  from calls_are_wait_free [OF race_run_reach [OF s]] s show ?thesis by blast
qed

end
