(* ===== verification/Readers.thy ===== *)
theory Readers
  imports Rx_Race
begin

text \<open>
  Several tasks that receive at the same time. All sockets share one receive queue, so that two
  tasks with a socket each call \<open>pop_pbuf_from_rx_ctrl_blk\<close> of \<open>src/TcpIp.c\<close> against
  each other. The steps are those of \<open>Rx_Race\<close>; the number of readers is arbitrary, and the
  scheduler may switch between any two steps. A push, where one occurs, is a whole call.
\<close>

subsection \<open>Readers and schedules\<close>

record readers =
  queue :: rx_state
  pcs :: "pop_pc list"

datatype reader_move = Reads nat | Pushes nat

fun reader_step :: "reader_move \<Rightarrow> readers \<Rightarrow> readers result" where
  "reader_step (Reads j) s =
     (if j < length (pcs s) then
        rbind (pop_next (pcs s ! j) (queue s)) (\<lambda>(pc, q).
        Inr \<lparr>queue = q, pcs = (pcs s)[j := pc]\<rparr>)
      else Inr s)"
| "reader_step (Pushes a) s =
     rbind (push_to_rx_ctrl_blk (Some a) (queue s)) (\<lambda>q. Inr (s\<lparr>queue := q\<rparr>))"

fun readers_run :: "reader_move list \<Rightarrow> readers \<Rightarrow> readers result" where
  "readers_run [] s = Inr s"
| "readers_run (m # ms) s = rbind (reader_step m s) (readers_run ms)"

lemma readers_run_append: "readers_run (ms @ ns) s = rbind (readers_run ms s) (readers_run ns)"
  by (induction ms arbitrary: s) (auto simp: rbind_assoc intro!: rbind_cong)

text \<open>\<open>n\<close> readers that have just called.\<close>

definition calling :: "nat \<Rightarrow> rx_state \<Rightarrow> readers" where
  "calling n s = \<lparr>queue = s, pcs = replicate n QTest\<rparr>"

subsection \<open>What the readers share\<close>

text \<open>
  Slot \<open>i\<close> with packet \<open>m\<close> is the head, or the list is empty; \<open>used\<close> are the other slots
  in use. The node keeps its content when it is given back.
\<close>

definition serving :: "nat \<Rightarrow> nat \<Rightarrow> nat set \<Rightarrow> rx_state \<Rightarrow> bool" where
  "serving i m used s \<longleftrightarrow>
     pool_wf (TcpIp_MemPool s) \<and> i < TCPIP_MEM_POOL_SIZE \<and> mp_pbuf (TcpIp_MemPool s ! i) = Some m \<and>
     rx_head s \<in> {Node (int i), NullNode} \<and> (rx_head s \<noteq> NullNode \<longrightarrow> rx_cnt s \<noteq> 0) \<and>
     rx_owned s - {i} = used"

fun reader_ok :: "nat \<Rightarrow> nat \<Rightarrow> rx_state \<Rightarrow> pop_pc \<Rightarrow> bool" where
  "reader_ok i m s QIdle \<longleftrightarrow> False"
| "reader_ok i m s (QData h) \<longleftrightarrow> h = Node (int i)"
| "reader_ok i m s (QNext h r) \<longleftrightarrow> h = Node (int i) \<and> r = Some m"
| "reader_ok i m s (QFree h r) \<longleftrightarrow> h = Node (int i) \<and> r = Some m \<and> rx_head s = NullNode"
| "reader_ok i m s (QLoadCnt r) \<longleftrightarrow> rx_head s = NullNode \<and> (r = None \<or> r = Some m \<and> i \<notin> rx_owned s)"
| "reader_ok i m s (QStoreCnt r c) \<longleftrightarrow> rx_head s = NullNode \<and> (r = None \<or> r = Some m \<and> i \<notin> rx_owned s)"
| "reader_ok i m s (QDone r) \<longleftrightarrow> rx_head s = NullNode \<and> (r = None \<or> r = Some m \<and> i \<notin> rx_owned s)"
| "reader_ok i m s _ \<longleftrightarrow> True"

text \<open>A reader that has taken the packet off the list.\<close>

abbreviation got :: "nat \<Rightarrow> pop_pc \<Rightarrow> bool" where
  "got m pc \<equiv> in_hand pc = Some m"

lemma reader_next:
  assumes "serving i m used s" and "reader_ok i m s pc"
  shows "returns (pop_next pc s) (\<lambda>(pc', s'). serving i m used s' \<and> reader_ok i m s' pc' \<and>
    (rx_head s = NullNode \<longrightarrow> rx_head s' = NullNode) \<and> rx_owned s' \<subseteq> rx_owned s \<and>
    (rx_head s' = NullNode \<longrightarrow> rx_head s = NullNode \<or> got m pc') \<and> (got m pc \<longrightarrow> got m pc'))"
proof -
  from assms(1) have wf: "pool_wf (TcpIp_MemPool s)" and i: "i < TCPIP_MEM_POOL_SIZE"
    by (simp_all add: serving_def)
  note len = pool_wf_length [OF wf] and nth = pool_wf_nth [OF wf i]
  show ?thesis
  proof (cases pc)
    case (QFree h r)
    with assms len i nth show ?thesis
      by (auto simp: serving_def free_tcpip_mpool_def in_mpool_range_def pool_wf_update owned_update)
  qed (use assms len i nth in \<open>auto simp: serving_def\<close>)
qed

text \<open>A step of one reader disturbs no other.\<close>

lemma reader_ok_stable:
  "reader_ok i m s pc \<Longrightarrow> (rx_head s = NullNode \<longrightarrow> rx_head s' = NullNode) \<Longrightarrow> rx_owned s' \<subseteq> rx_owned s \<Longrightarrow>
     reader_ok i m s' pc"
  by (cases pc) auto

definition readers_inv :: "nat \<Rightarrow> nat \<Rightarrow> nat set \<Rightarrow> readers \<Rightarrow> bool" where
  "readers_inv i m used s \<longleftrightarrow> serving i m used (queue s) \<and>
     (\<forall>j < length (pcs s). reader_ok i m (queue s) (pcs s ! j)) \<and>
     (rx_head (queue s) = NullNode \<longrightarrow> (\<exists>j < length (pcs s). got m (pcs s ! j)))"

lemma reads_keep:
  assumes inv: "readers_inv i m used s"
  shows "returns (reader_step (Reads j) s) (\<lambda>s'. readers_inv i m used s' \<and> length (pcs s') = length (pcs s))"
proof (cases "j < length (pcs s)")
  case True
  with inv have ok: "serving i m used (queue s)" "reader_ok i m (queue s) (pcs s ! j)"
    by (auto simp: readers_inv_def)
  from reader_next [OF this] obtain pc q where nx: "pop_next (pcs s ! j) (queue s) = Inr (pc, q)"
    and new: "serving i m used q" "reader_ok i m q pc" "rx_head (queue s) = NullNode \<longrightarrow> rx_head q = NullNode"
      "rx_owned q \<subseteq> rx_owned (queue s)"
      "rx_head q = NullNode \<longrightarrow> rx_head (queue s) = NullNode \<or> got m pc" "got m (pcs s ! j) \<longrightarrow> got m pc"
    by (auto simp: returns_iff)
  have "\<exists>k < length (pcs s). got m ((pcs s)[j := pc] ! k)" if head: "rx_head q = NullNode"
  proof (cases "rx_head (queue s) = NullNode")
    case True
    with inv obtain k where "k < length (pcs s)" "got m (pcs s ! k)" by (auto simp: readers_inv_def)
    with new(6) have "got m ((pcs s)[j := pc] ! k)" by (cases "k = j") auto
    with \<open>k < length (pcs s)\<close> show ?thesis by blast
  next
    case False
    with head new(5) \<open>j < length (pcs s)\<close> show ?thesis by (intro exI [of _ j]) simp
  qed
  with True inv nx new show ?thesis
    by (auto simp: readers_inv_def nth_list_update intro: reader_ok_stable)
qed (use inv in simp)

lemma readers_keep:
  "readers_inv i m used s \<Longrightarrow>
     returns (readers_run (map Reads js) s) (\<lambda>s'. readers_inv i m used s' \<and> length (pcs s') = length (pcs s))"
proof (induction js arbitrary: s)
  case (Cons j js)
  from reads_keep [OF Cons.prems, of j] obtain t where t: "reader_step (Reads j) s = Inr t"
    "readers_inv i m used t" "length (pcs t) = length (pcs s)" by (auto simp: returns_iff)
  with Cons.IH [OF t(2)] show ?case by (simp del: reader_step.simps)
qed simp

lemma calling_inv:
  assumes inv: "rx_inv s" and m: "rx_content s = Some (Some m)"
  shows "\<exists>i. readers_inv i m (rx_owned s - {i}) (calling n s) \<and> i \<in> rx_owned s \<and> rx_head s = Node (int i)"
  using inv
proof (cases rule: rx_inv_cases)
  case empty
  with m show ?thesis by (simp add: rx_content_def)
next
  case (waiting i)
  with inv m have "readers_inv i m (rx_owned s - {i}) (calling n s)"
    by (auto simp: readers_inv_def serving_def calling_def rx_content_def rx_inv_def)
  with waiting show ?thesis by blast
qed

subsection \<open>Readers in step\<close>

text \<open>
  A round in which every reader takes the same step: the first has the effect, and the others
  repeat it without one.
\<close>

lemma round:
  assumes "pop_next pc s = Inr (pc', s')" and "pop_next pc s' = Inr (pc', s')" and "k \<le> n"
  shows "readers_run (map Reads [0..<k]) \<lparr>queue = s, pcs = replicate n pc\<rparr> =
    Inr \<lparr>queue = if k = 0 then s else s', pcs = replicate k pc' @ replicate (n - k) pc\<rparr>"
  using assms(3)
proof (induction k)
  case (Suc k)
  then have "replicate (n - k) pc = pc # replicate (n - Suc k) pc"
    by (metis Suc_diff_le diff_Suc_Suc replicate_Suc)
  moreover have "replicate k pc' @ pc' # xs = pc' # replicate k pc' @ xs" for xs
    by (simp flip: replicate_append_same)
  ultimately show ?case
    using Suc assms(1,2) by (simp add: readers_run_append nth_append list_update_append)
qed simp

text \<open>The rounds that take the counter down, one reader after the other.\<close>

lemma countdown:
  "k \<le> n \<Longrightarrow> readers_run (concat (map (\<lambda>j. [Reads j, Reads j]) [0..<k]))
     \<lparr>queue = s, pcs = replicate n (QLoadCnt r)\<rparr> =
   Inr \<lparr>queue = s\<lparr>TcpIp_Rx_CtrlBlk := (TcpIp_Rx_CtrlBlk s)\<lparr>rx_buf_cnt := rx_cnt s - of_nat k\<rparr>\<rparr>,
        pcs = replicate k (QDone r) @ replicate (n - k) (QLoadCnt r)\<rparr>"
proof (induction k)
  case (Suc k)
  then have "replicate (n - k) (QLoadCnt r) = QLoadCnt r # replicate (n - Suc k) (QLoadCnt r)"
    by (metis Suc_diff_le diff_Suc_Suc replicate_Suc)
  moreover have "replicate k (QDone r) @ QDone r # xs = QDone r # replicate k (QDone r) @ xs" for xs
    by (simp flip: replicate_append_same)
  ultimately show ?case
    using Suc by (simp add: readers_run_append nth_append list_update_append algebra_simps)
qed simp

definition lockstep :: "nat \<Rightarrow> reader_move list" where
  "lockstep n = map Reads [0..<n] @ map Reads [0..<n] @ map Reads [0..<n] @ map Reads [0..<n] @
     map Reads [0..<n] @ concat (map (\<lambda>j. [Reads j, Reads j]) [0..<n])"

text \<open>The queue after \<open>n\<close> readers took the packet in slot \<open>i\<close>.\<close>

definition drained :: "nat \<Rightarrow> nat \<Rightarrow> rx_state \<Rightarrow> rx_state" where
  "drained n i s = \<lparr>TcpIp_MemPool = (TcpIp_MemPool s)[i := (TcpIp_MemPool s ! i)\<lparr>mp_state := MPOOL_FREE\<rparr>],
     TcpIp_Rx_CtrlBlk = \<lparr>rx_buf_cnt = rx_cnt s - of_nat n, rx_bufhead = NullNode\<rparr>\<rparr>"

lemma lockstep_run:
  assumes inv: "rx_inv s" and m: "rx_content s = Some (Some m)" and head: "rx_head s = Node (int i)"
    and n: "0 < n"
  shows "readers_run (lockstep n) (calling n s) =
    Inr \<lparr>queue = drained n i s, pcs = replicate n (QDone (Some m))\<rparr>"
proof -
  from inv head have wf: "pool_wf (TcpIp_MemPool s)" and i: "i < TCPIP_MEM_POOL_SIZE" and cnt: "rx_cnt s \<noteq> 0"
    using owned_bound [of "TcpIp_MemPool s"] by (auto simp: rx_inv_def)
  note len = pool_wf_length [OF wf] and nth = pool_wf_nth [OF wf i]
  from m head have pbuf: "mp_pbuf (TcpIp_MemPool s ! i) = Some m" by (simp add: rx_content_def)
  let ?p = "Node (int i)"
  let ?s1 = "s\<lparr>TcpIp_Rx_CtrlBlk := (TcpIp_Rx_CtrlBlk s)\<lparr>rx_bufhead := NullNode\<rparr>\<rparr>"
  let ?s2 = "?s1\<lparr>TcpIp_MemPool := (TcpIp_MemPool s)[i := (TcpIp_MemPool s ! i)\<lparr>mp_state := MPOOL_FREE\<rparr>]\<rparr>"
  have round: "readers_run (map Reads [0..<n]) \<lparr>queue = a, pcs = replicate n pc\<rparr> =
      Inr \<lparr>queue = b, pcs = replicate n pc'\<rparr>"
    if "pop_next pc a = Inr (pc', b)" "pop_next pc b = Inr (pc', b)" for pc a pc' b
    using round [OF that, of n n] n by simp
  have "readers_run (map Reads [0..<n]) \<lparr>queue = s, pcs = replicate n QTest\<rparr> =
      Inr \<lparr>queue = s, pcs = replicate n QHead\<rparr>"
    by (rule round) (simp_all add: cnt)
  moreover have "readers_run (map Reads [0..<n]) \<lparr>queue = s, pcs = replicate n QHead\<rparr> =
      Inr \<lparr>queue = s, pcs = replicate n (QData ?p)\<rparr>"
    by (rule round) (simp_all add: head)
  moreover have "readers_run (map Reads [0..<n]) \<lparr>queue = s, pcs = replicate n (QData ?p)\<rparr> =
      Inr \<lparr>queue = s, pcs = replicate n (QNext ?p (Some m))\<rparr>"
    by (rule round) (simp_all add: len i pbuf)
  moreover have "readers_run (map Reads [0..<n]) \<lparr>queue = s, pcs = replicate n (QNext ?p (Some m))\<rparr> =
      Inr \<lparr>queue = ?s1, pcs = replicate n (QFree ?p (Some m))\<rparr>"
    by (rule round) (simp_all add: len i nth)
  moreover have "readers_run (map Reads [0..<n]) \<lparr>queue = ?s1, pcs = replicate n (QFree ?p (Some m))\<rparr> =
      Inr \<lparr>queue = ?s2, pcs = replicate n (QLoadCnt (Some m))\<rparr>"
    by (rule round) (use len i in \<open>simp_all add: free_tcpip_mpool_def in_mpool_range_def\<close>)
  moreover have "readers_run (concat (map (\<lambda>j. [Reads j, Reads j]) [0..<n]))
      \<lparr>queue = ?s2, pcs = replicate n (QLoadCnt (Some m))\<rparr> =
      Inr \<lparr>queue = drained n i s, pcs = replicate n (QDone (Some m))\<rparr>"
    using countdown [of n n ?s2 "Some m"] by (simp add: drained_def)
  ultimately show ?thesis by (simp only: lockstep_def calling_def readers_run_append rbind.simps)
qed

text \<open>
  With the counter at its largest value, the next push sets it to zero, and no read finds the
  packet.
\<close>

lemma wrapped_push:
  assumes "pool_wf (TcpIp_MemPool s)" and "rx_head s = NullNode" and "rx_cnt s = -1"
    and "rx_owned s \<noteq> {..<TCPIP_MEM_POOL_SIZE}"
  shows "returns (push_to_rx_ctrl_blk (Some a) s) (\<lambda>q. rx_content q = Some (Some a) \<and> rx_cnt q = 0)"
proof -
  from assms(1,4) obtain j where j: "first_in_state MPOOL_FREE (TcpIp_MemPool s) = Some j"
    by (auto simp: owned_full_iff)
  with first_in_state_SomeD [OF j] assms show ?thesis
    by (simp add: push_to_rx_ctrl_blk_def get_new_first rx_content_def Let_def)
qed

lemma drained_push:
  assumes inv: "rx_inv s" and head: "rx_head s = Node (int i)" and "n = Suc (unat (rx_cnt s))"
  shows "returns (push_to_rx_ctrl_blk (Some a) (drained n i s)) (\<lambda>q. rx_content q = Some (Some a) \<and> rx_cnt q = 0)"
proof (rule wrapped_push)
  from inv head have wf: "pool_wf (TcpIp_MemPool s)" and i: "i < TCPIP_MEM_POOL_SIZE"
    using owned_bound [of "TcpIp_MemPool s"] by (auto simp: rx_inv_def)
  then show "pool_wf (TcpIp_MemPool (drained n i s))"
    using pool_wf_nth [OF wf i] by (simp add: drained_def pool_wf_update)
  from i pool_wf_length [OF wf] have "i \<notin> rx_owned (drained n i s)" by (simp add: drained_def owned_update)
  with i show "rx_owned (drained n i s) \<noteq> {..<TCPIP_MEM_POOL_SIZE}" by auto
qed (simp_all add: drained_def assms(3))

text \<open>
  Two readers of one packet, the second late with giving back the slot: \<open>b\<close> is pushed after the
  first has returned, \<open>c\<close> after the second.
\<close>

definition both_read :: "reader_move list" where
  "both_read = [Reads 0, Reads 0, Reads 0, Reads 1, Reads 1, Reads 1, Reads 0, Reads 0, Reads 0, Reads 0, Reads 1]"

definition double_free :: "nat \<Rightarrow> nat \<Rightarrow> reader_move list" where
  "double_free b c = both_read @ [Pushes b] @ [Reads 1, Reads 1, Reads 1] @ [Pushes c]"

lemma both_read_run:
  assumes inv: "rx_inv s" and m: "rx_content s = Some (Some a)" and head: "rx_head s = Node (int i)"
  shows "readers_run both_read (calling 2 s) =
    Inr \<lparr>queue = drained 1 i s, pcs = [QDone (Some a), QFree (Node (int i)) (Some a)]\<rparr>"
proof -
  from inv head have wf: "pool_wf (TcpIp_MemPool s)" and i: "i < TCPIP_MEM_POOL_SIZE" and cnt: "rx_cnt s \<noteq> 0"
    using owned_bound [of "TcpIp_MemPool s"] by (auto simp: rx_inv_def)
  from m head have "mp_pbuf (TcpIp_MemPool s ! i) = Some a" by (simp add: rx_content_def)
  with wf i cnt head pool_wf_length [OF wf] pool_wf_nth [OF wf i] show ?thesis
    by (simp add: both_read_def calling_def numeral_2_eq_2 drained_def free_tcpip_mpool_def in_mpool_range_def)
qed

text \<open>The late release and the return of the second reader.\<close>

lemma late_release:
  assumes "length (TcpIp_MemPool q) = TCPIP_MEM_POOL_SIZE" and "i < TCPIP_MEM_POOL_SIZE"
  shows "readers_run [Reads 1, Reads 1, Reads 1] \<lparr>queue = q, pcs = [pc, QFree (Node (int i)) r]\<rparr> =
    Inr \<lparr>queue = \<lparr>TcpIp_MemPool = (TcpIp_MemPool q)[i := (TcpIp_MemPool q ! i)\<lparr>mp_state := MPOOL_FREE\<rparr>],
           TcpIp_Rx_CtrlBlk = \<lparr>rx_buf_cnt = rx_cnt q - 1, rx_bufhead = rx_head q\<rparr>\<rparr>,
         pcs = [pc, QDone r]\<rparr>"
  using assms by (cases q) (simp add: free_tcpip_mpool_def in_mpool_range_def)

text \<open>Two reads of a queue with one packet.\<close>

lemma two_reads:
  assumes "pool_wf (TcpIp_MemPool q)" and "rx_head q = Node (int i)" and "i < TCPIP_MEM_POOL_SIZE"
    and "rx_cnt q \<noteq> 0"
  shows "returns (box_run push_to_rx_ctrl_blk pop_pbuf_from_rx_ctrl_blk [Get, Get] q)
    (\<lambda>(out, q'). out = [mp_pbuf (TcpIp_MemPool q ! i), None])"
  by (simp add: pop_wf [OF assms] pop_empty)

text \<open>The queue that the schedule leaves, and what it has in front.\<close>

lemma double_free_run:
  assumes inv: "rx_inv s" and m: "rx_content s = Some (Some a)" and head: "rx_head s = Node (int i)"
    and j: "first_in_state MPOOL_FREE (TcpIp_MemPool (drained 1 i s)) = Some j"
  shows "returns (readers_run (double_free b c) (calling 2 s)) (\<lambda>s'.
    pcs s' = [QDone (Some a), QDone (Some a)] \<and> pool_wf (TcpIp_MemPool (queue s')) \<and>
    rx_head (queue s') = Node (int j) \<and> rx_cnt (queue s') = rx_cnt s \<and>
    mp_pbuf (TcpIp_MemPool (queue s') ! j) = (if j = i then Some c else Some b))"
proof -
  from inv head have wf: "pool_wf (TcpIp_MemPool s)" and i: "i < TCPIP_MEM_POOL_SIZE"
    using owned_bound [of "TcpIp_MemPool s"] by (auto simp: rx_inv_def)
  define d where "d = drained 1 i s"
  define q where "q = push_value (Some b) d"
  define r where "r = \<lparr>TcpIp_MemPool = (TcpIp_MemPool q)[i := (TcpIp_MemPool q ! i)\<lparr>mp_state := MPOOL_FREE\<rparr>],
    TcpIp_Rx_CtrlBlk = \<lparr>rx_buf_cnt = rx_cnt q - 1, rx_bufhead = rx_head q\<rparr>\<rparr>"
  define z where "z = push_value (Some c) r"
  note j = j [folded d_def] and jb = first_in_state_SomeD [OF j [folded d_def]]
  have d: "pool_wf (TcpIp_MemPool d)" "rx_head d = NullNode" "rx_cnt d = rx_cnt s - 1"
    using pool_wf_nth [OF wf i] by (simp_all add: d_def drained_def pool_wf_update [OF wf])
  have q: "TcpIp_MemPool q = (TcpIp_MemPool d)[j := (TcpIp_MemPool d ! j)
      \<lparr>mp_state := MPOOL_ACQUIRED, mp_pbuf := Some b\<rparr>]" "rx_head q = Node (int j)" "rx_cnt q = rx_cnt s"
    using d j by (simp_all add: q_def push_value_def)
  have wq: "pool_wf (TcpIp_MemPool q)"
    unfolding q(1) using pool_wf_nth [OF d(1), of j] jb by (intro pool_wf_update d(1)) simp_all
  have r: "TcpIp_MemPool r = (TcpIp_MemPool q)[i := (TcpIp_MemPool q ! i)\<lparr>mp_state := MPOOL_FREE\<rparr>]"
    "rx_head r = Node (int j)" "rx_cnt r = rx_cnt s - 1"
    by (simp_all add: r_def q(2,3))
  have wr: "pool_wf (TcpIp_MemPool r)"
    unfolding r(1) using pool_wf_nth [OF wq i] by (intro pool_wf_update wq) simp_all
  note len = pool_wf_length [OF d(1)] pool_wf_length [OF wq] pool_wf_length [OF wr]
  have "mp_state (TcpIp_MemPool r ! i) = MPOOL_FREE" using i len by (simp add: r(1))
  then obtain l where l: "first_in_state MPOOL_FREE (TcpIp_MemPool r) = Some l"
    using i by (cases "first_in_state MPOOL_FREE (TcpIp_MemPool r)") (auto simp: first_in_state_None)
  note lb = first_in_state_SomeD [OF l]
  have z: "TcpIp_MemPool z = (TcpIp_MemPool r)[l := (TcpIp_MemPool r ! l)
      \<lparr>mp_state := MPOOL_ACQUIRED, mp_pbuf := Some c\<rparr>]" "rx_head z = Node (int j)" "rx_cnt z = rx_cnt s"
    using l by (simp_all add: z_def push_value_def r(2,3))
  have wz: "pool_wf (TcpIp_MemPool z)"
    unfolding z(1) using pool_wf_nth [OF wr, of l] lb by (intro pool_wf_update wr) simp_all
  have state_r: "mp_state (TcpIp_MemPool r ! k) = (if k = i then MPOOL_FREE else if k = j then MPOOL_ACQUIRED
      else mp_state (TcpIp_MemPool d ! k))" for k
    using i jb len by (auto simp: r(1) q(1) nth_list_update)
  have "l = i" if "j = i"
    using lb jb that state_r by (metis linorder_neqE_nat tcpip_mpool_state_t.distinct)
  moreover have "l \<noteq> j" if "j \<noteq> i" using lb that state_r [of l] by auto
  ultimately have "mp_pbuf (TcpIp_MemPool z ! j) = (if j = i then Some c else Some b)"
    using lb jb i len by (auto simp: z(1) r(1) q(1) nth_list_update)
  moreover have "push_to_rx_ctrl_blk (Some b) d = Inr q" "push_to_rx_ctrl_blk (Some c) r = Inr z"
    using wr jb r(2) by (auto simp: q_def z_def intro!: push_wf d)
  then have "readers_run [Pushes b] \<lparr>queue = d, pcs = ps\<rparr> = Inr \<lparr>queue = q, pcs = ps\<rparr>"
    "readers_run [Pushes c] \<lparr>queue = r, pcs = ps\<rparr> = Inr \<lparr>queue = z, pcs = ps\<rparr>" for ps by simp_all
  then have "readers_run (double_free b c) (calling 2 s) = Inr \<lparr>queue = z, pcs = [QDone (Some a), QDone (Some a)]\<rparr>"
    by (simp only: double_free_def readers_run_append both_read_run [OF assms(1-3), folded d_def]
        late_release [OF len(2) i, folded r_def] rbind.simps)
  ultimately show ?thesis using wz z(2,3) by simp
qed

text \<open>The queue with one packet.\<close>

lemma one_push: "rx_content (push_value (Some a) rx_init) = Some (Some a)"
  "rx_cnt (push_value (Some a) rx_init) = 1"
proof -
  show "rx_content (push_value (Some a) rx_init) = Some (Some a)"
    by (simp add: push_value_content [OF rx_inv_init])
  have "first_in_state MPOOL_FREE (TcpIp_MemPool rx_init) \<noteq> None"
    by (auto simp: first_in_state_None rx_init_def TcpIp_MemPool_init_def TCPIP_MEM_POOL_SIZE_def
        intro!: exI [of _ 0])
  then show "rx_cnt (push_value (Some a) rx_init) = 1"
    by (auto simp: push_value_def rx_init_def)
qed

subsection \<open>Properties\<close>

text \<open>C11: any number of readers against each other. While a packet waits and \<open>n\<close> tasks receive,
  under every schedule no step faults, no task gets anything but that packet or nothing, and once
  all have returned, if there are any, at least one has the packet, the queue is empty and
  the packet's slot, and no other, is back in the pool.\<close>
theorem readers_outcomes:
  assumes "reach rx_step rx_init s" and "rx_content s = Some (Some m)"
  shows "returns (readers_run (map Reads js) (calling n s)) (\<lambda>s'.
    (\<forall>r. QDone r \<in> set (pcs s') \<longrightarrow> r \<in> {None, Some m}) \<and>
    (0 < n \<longrightarrow> (\<forall>pc \<in> set (pcs s'). \<exists>r. pc = QDone r) \<longrightarrow> QDone (Some m) \<in> set (pcs s') \<and>
      rx_content (queue s') = None \<and>
      (\<exists>i. rx_head s = Node (int i) \<and> i \<in> rx_owned s \<and> rx_owned (queue s') = rx_owned s - {i})))"
proof -
  from rxs.reach_inv [OF assms(1)] have inv: "rx_inv s" .
  from calling_inv [OF inv assms(2)] obtain i where i: "readers_inv i m (rx_owned s - {i}) (calling n s)"
    "i \<in> rx_owned s" "rx_head s = Node (int i)" by blast
  from readers_keep [OF i(1), of js] show ?thesis
  proof (rule returns_mono, elim conjE, intro conjI impI allI)
    fix s' assume s': "readers_inv i m (rx_owned s - {i}) s'" "length (pcs s') = length (pcs (calling n s))"
    show "r \<in> {None, Some m}" if "QDone r \<in> set (pcs s')" for r
      using s' that by (auto simp: readers_inv_def in_set_conv_nth)
    assume "0 < n" and all: "\<forall>pc \<in> set (pcs s'). \<exists>r. pc = QDone r"
    with s'(2) have "0 < length (pcs s')" by (simp add: calling_def)
    with all obtain r where "pcs s' ! 0 = QDone r" "0 < length (pcs s')" by (metis nth_mem)
    with s'(1) have head: "rx_head (queue s') = NullNode" by (auto simp: readers_inv_def dest!: spec [of _ 0])
    with s'(1) obtain k where k: "k < length (pcs s')" "got m (pcs s' ! k)" by (auto simp: readers_inv_def)
    with k all have "pcs s' ! k = QDone (Some m)" by (metis in_hand.simps(4) nth_mem)
    with k(1) show "QDone (Some m) \<in> set (pcs s')" by (metis nth_mem)
    from head show "rx_content (queue s') = None" by (simp add: rx_content_def)
    from k(1) s'(1) have "reader_ok i m (queue s') (pcs s' ! k)" "rx_owned (queue s') - {i} = rx_owned s - {i}"
      by (simp_all add: readers_inv_def serving_def)
    with \<open>pcs s' ! k = QDone (Some m)\<close> have "i \<notin> rx_owned (queue s')"
      "rx_owned (queue s') - {i} = rx_owned s - {i}" by simp_all
    then have "rx_owned (queue s') = rx_owned s - {i}" by blast
    with i(2,3) show "\<exists>i. rx_head s = Node (int i) \<and> i \<in> rx_owned s \<and> rx_owned (queue s') = rx_owned s - {i}"
      by blast
  qed
qed

theorem readers_outcomes_witness:
  "returns (readers_run (map Reads [0, 1, 0, 1, 0, 0, 0, 0, 0, 1, 1, 1])
     (calling 2 (push_value (Some 1) rx_init))) (\<lambda>s'. \<forall>r. QDone r \<in> set (pcs s') \<longrightarrow> r \<in> {None, Some 1})"
  by (rule returns_mono [OF readers_outcomes [OF rx_one_push_reach one_push(1)]]) blast

text \<open>C12: the same packet can go to every reader, however many there are, and the counter is then
  taken down once for each: with one more reader than it counts it wraps to 65535. The next
  packet is then accepted, put in the list and counted as the zeroth, so that no number of
  reads returns it.\<close>
theorem packet_read_by_every_reader:
  assumes "reach rx_step rx_init s" and "rx_content s = Some (Some m)" and "0 < n"
  shows "returns (readers_run (lockstep n) (calling n s)) (\<lambda>s'.
    pcs s' = replicate n (QDone (Some m)) \<and> rx_cnt (queue s') = rx_cnt s - of_nat n \<and>
    (n = Suc (unat (rx_cnt s)) \<longrightarrow> returns (push_to_rx_ctrl_blk (Some a) (queue s')) (\<lambda>q.
       rx_content q = Some (Some a) \<and>
       (\<forall>k. box_run push_to_rx_ctrl_blk pop_pbuf_from_rx_ctrl_blk (replicate k Get) q =
          Inr (replicate k None, q)))))"
proof -
  from rxs.reach_inv [OF assms(1)] have inv: "rx_inv s" .
  from calling_inv [OF inv assms(2)] obtain i where head: "rx_head s = Node (int i)" by blast
  show ?thesis
    using lockstep_run [OF inv assms(2) head assms(3)] drained_push [OF inv head, of n a]
    by (auto simp: drained_def [of n i s, THEN arg_cong, of rx_cnt] blind_reads elim!: returns_mono)
qed

theorem packet_read_by_every_reader_witness:
  "returns (readers_run (lockstep 2) (calling 2 (push_value (Some 1) rx_init))) (\<lambda>s'.
     pcs s' = [QDone (Some 1), QDone (Some 1)] \<and> rx_cnt (queue s') = -1)"
  by (rule returns_mono [OF packet_read_by_every_reader [OF rx_one_push_reach one_push(1), where a = 2]])
     (simp_all add: one_push(2) numeral_2_eq_2)

text \<open>C13: two readers of one packet can give its slot back twice, and the second time it can
  belong to another packet. In any reachable state with a packet \<open>a\<close> waiting in slot \<open>i\<close>, in a
  schedule where both tasks receive \<open>a\<close> and \<open>b\<close> is pushed between the two releases, and
  \<open>c\<close> after them: if all slots before \<open>i\<close> are in use, then \<open>b\<close> is in slot \<open>i\<close>, which
  counts as free, and \<open>c\<close> is stored over it, so that the next reads give \<open>c\<close> and nothing; if
  a slot before \<open>i\<close> is free, then \<open>b\<close> is there, and they give \<open>b\<close> and nothing. Taken one
  after the other, the same calls lose no packet.\<close>
theorem double_free_overwrites_packet:
  assumes "reach rx_step rx_init s" and "rx_content s = Some (Some a)" and "rx_head s = Node (int i)"
  shows "returns (readers_run (double_free b c) (calling 2 s)) (\<lambda>s'.
     pcs s' = [QDone (Some a), QDone (Some a)] \<and>
     returns (box_run push_to_rx_ctrl_blk pop_pbuf_from_rx_ctrl_blk [Get, Get] (queue s')) (\<lambda>(out, q).
       out = [if {..<i} \<subseteq> rx_owned s then Some c else Some b, None])) \<and>
   returns (box_run push_to_rx_ctrl_blk pop_pbuf_from_rx_ctrl_blk
       [Get, Put (Some b), Get, Put (Some c), Get, Get] s)
     (\<lambda>(out, q). out = [Some a, Some b, Some c, None])"
proof -
  from rxs.reach_inv [OF assms(1)] have inv: "rx_inv s" .
  with assms(3) have wf: "pool_wf (TcpIp_MemPool s)" and i: "i < TCPIP_MEM_POOL_SIZE" and cnt: "rx_cnt s \<noteq> 0"
    using owned_bound [of "TcpIp_MemPool s"] by (auto simp: rx_inv_def)
  note len = pool_wf_length [OF wf]
  let ?P = "TcpIp_MemPool (drained 1 i s)"
  have "mp_state (?P ! i) = MPOOL_FREE" using i len by (simp add: drained_def)
  then obtain j where j: "first_in_state MPOOL_FREE ?P = Some j"
    using i by (cases "first_in_state MPOOL_FREE ?P") (auto simp: first_in_state_None)
  note jb = first_in_state_SomeD [OF j]
  have lower: "mp_state (?P ! k) = mp_state (TcpIp_MemPool s ! k)" if "k \<noteq> i" for k
    using that by (simp add: drained_def)
  have "j \<le> i" using jb \<open>mp_state (?P ! i) = MPOOL_FREE\<close> by (metis leI)
  then have iff: "j = i \<longleftrightarrow> {..<i} \<subseteq> rx_owned s"
    using jb lower i len by (auto simp: owned_def subset_iff) (metis le_neq_implies_less less_not_refl)
  have one: "\<exists>q'. push_to_rx_ctrl_blk (Some x) q = Inr q' \<and> rx_inv q' \<and> rx_content q' = Some (Some x)"
    if "rx_inv q" "rx_content q = None" for x q
    using that push_eq push_value_inv push_value_content by auto
  have get: "\<exists>q'. pop_pbuf_from_rx_ctrl_blk q = Inr (case rx_content q of None \<Rightarrow> None | Some m \<Rightarrow> m, q') \<and>
      rx_inv q' \<and> rx_content q' = None" if "rx_inv q" for q
    using pop_inv [OF that] by (auto simp: returns_iff)
  have "returns (box_run push_to_rx_ctrl_blk pop_pbuf_from_rx_ctrl_blk
       [Get, Put (Some b), Get, Put (Some c), Get, Get] s)
     (\<lambda>(out, q). out = [Some a, Some b, Some c, None])"
  proof -
    from get [OF inv] assms(2) obtain q1 where q1: "pop_pbuf_from_rx_ctrl_blk s = Inr (Some a, q1)"
      "rx_inv q1" "rx_content q1 = None" by auto
    from one [OF q1(2,3), of b] obtain q2 where q2: "push_to_rx_ctrl_blk (Some b) q1 = Inr q2"
      "rx_inv q2" "rx_content q2 = Some (Some b)" by auto
    from get [OF q2(2)] q2(3) obtain q3 where q3: "pop_pbuf_from_rx_ctrl_blk q2 = Inr (Some b, q3)"
      "rx_inv q3" "rx_content q3 = None" by auto
    from one [OF q3(2,3), of c] obtain q4 where q4: "push_to_rx_ctrl_blk (Some c) q3 = Inr q4"
      "rx_inv q4" "rx_content q4 = Some (Some c)" by auto
    from get [OF q4(2)] q4(3) obtain q5 where q5: "pop_pbuf_from_rx_ctrl_blk q4 = Inr (Some c, q5)"
      "rx_inv q5" "rx_content q5 = None" by auto
    from get [OF q5(2)] q5(3) obtain q6 where "pop_pbuf_from_rx_ctrl_blk q5 = Inr (None, q6)" by auto
    with q1(1) q2(1) q3(1) q4(1) q5(1) show ?thesis by simp
  qed
  moreover have "returns (readers_run (double_free b c) (calling 2 s)) (\<lambda>s'.
     pcs s' = [QDone (Some a), QDone (Some a)] \<and>
     returns (box_run push_to_rx_ctrl_blk pop_pbuf_from_rx_ctrl_blk [Get, Get] (queue s')) (\<lambda>(out, q).
       out = [if {..<i} \<subseteq> rx_owned s then Some c else Some b, None]))"
  proof (rule returns_mono [OF double_free_run [OF inv assms(2,3) j]], elim conjE, intro conjI)
    fix s' assume q: "pool_wf (TcpIp_MemPool (queue s'))" "rx_head (queue s') = Node (int j)"
      "rx_cnt (queue s') = rx_cnt s" "mp_pbuf (TcpIp_MemPool (queue s') ! j) = (if j = i then Some c else Some b)"
    from two_reads [OF q(1,2)] jb cnt q(3) have "returns
        (box_run push_to_rx_ctrl_blk pop_pbuf_from_rx_ctrl_blk [Get, Get] (queue s'))
        (\<lambda>(out, q'). out = [mp_pbuf (TcpIp_MemPool (queue s') ! j), None])" by simp
    then show "returns (box_run push_to_rx_ctrl_blk pop_pbuf_from_rx_ctrl_blk [Get, Get] (queue s')) (\<lambda>(out, q).
       out = [if {..<i} \<subseteq> rx_owned s then Some c else Some b, None])"
      unfolding q(4) iff .
  qed
  ultimately show ?thesis by blast
qed

theorem double_free_overwrites_packet_witness:
  "returns (readers_run (double_free 2 3) (calling 2 (push_value (Some 1) rx_init))) (\<lambda>s'.
     pcs s' = [QDone (Some 1), QDone (Some 1)] \<and>
     returns (box_run push_to_rx_ctrl_blk pop_pbuf_from_rx_ctrl_blk [Get, Get] (queue s')) (\<lambda>(out, q).
       out = [Some 3, None]))"
proof -
  have "first_in_state MPOOL_FREE (TcpIp_MemPool rx_init) = Some 0"
    by (simp add: first_in_state_def rx_init_def TcpIp_MemPool_init_def TCPIP_MEM_POOL_SIZE_def upt_conv_Cons)
  then have "rx_head (push_value (Some 1) rx_init) = Node (int 0)"
    by (simp add: push_value_def) (simp add: rx_init_def)
  from double_free_overwrites_packet [OF rx_one_push_reach one_push(1) this, of 2 3] show ?thesis
    by (simp del: box_run.simps of_nat_0)
qed

end
