(* ===== verification/Contract.thy ===== *)
theory Contract
  imports Effects "HOL-Library.Sublist"
begin

text \<open>
  The contract of the module towards its users and towards lwIP, as an abstract service with three
  parts: the packet that waits to be received, the connection the module works on, and the
  requests it has made of lwIP. Every function of the module is a step of the service. What the
  periodic function and the initialisation keep, whatever is called back while they run, is
  proved once in a locale.
\<close>

subsection \<open>Relations that callbacks keep\<close>

text \<open>
  A preorder between the state before and the state after, which each callback, each call into the
  environment that is no request, and each frame copied to the buffer respects: then the periodic function and the
  initialisation respect it, whatever is called back while they run.
\<close>

locale callback_relation =
  fixes R :: "tcpip_state \<Rightarrow> tcpip_state \<Rightarrow> bool"
  assumes refl: "R k k"
    and trans: "R a b \<Longrightarrow> R b c \<Longrightarrow> R a c"
    and callback: "core_inv k \<Longrightarrow> ensures (run_callback env cb k) (R k)"
    and event: "\<not> request e \<Longrightarrow> R k (emit e k)"
    and buffer: "R k (k\<lparr>Lwip_EthPkt := buf\<rparr>)"
begin

lemma after: "R k t \<Longrightarrow> \<not> request e \<Longrightarrow> R k (emit e t)" "R k t \<Longrightarrow> R k (t\<lparr>Lwip_EthPkt := buf\<rparr>)"
  by (blast intro: trans [OF _ event] trans [OF _ buffer])+

lemma callbacks: "core_inv k \<Longrightarrow> ensures (run_callbacks env cbs k) (R k)"
proof (induction cbs arbitrary: k)
  case Nil
  then show ?case by (simp add: refl)
next
  case (Cons cb cbs)
  have "ensures (run_callbacks env cbs k') (R k)" if "run_callback env cb k = Inr k'" for k'
  proof -
    from that Cons.prems have "core_inv k'" "R k k'"
      by (auto dest: ensuresD [OF run_callback_keeps] ensuresD [OF callback])
    with Cons.IH [of k'] show ?thesis by (auto elim!: ensures_mono intro: trans)
  qed
  then show ?case by (auto intro: ensuresI)
qed

lemma calls:
  assumes "core_inv t" and "R k t" and "no_close [e]" and "\<not> request e"
  shows "ensures (call_cbs env e t) (\<lambda>u. core_inv u \<and> R k u)"
proof -
  from assms have "core_inv (emit e t)" "R k (emit e t)" by (auto intro: after)
  then have "ensures (call_cbs env e t) (R k)"
    using callbacks [of "emit e t" env "callbacks env (tr (emit e t))"]
    by (auto simp: call_cbs_def Let_def elim!: ensures_mono intro: trans)
  then show ?thesis using call_cbs_keep [OF assms(1,3), of env] by (auto intro!: ensuresI)
qed

lemma loop:
  "core_inv t \<Longrightarrow> R k t \<Longrightarrow>
     ensures (input_loop env p MAX_TCPIP_LOCAL_ADDRESS 0 t) (\<lambda>u. core_inv u \<and> R k u)"
  by (auto simp: input_loop.simps MAX_TCPIP_LOCAL_ADDRESS_def Let_def
      intro!: ensures_mono [OF calls] intro: after)

lemma emits: "R k t \<Longrightarrow> list_all (\<lambda>e. \<not> request e) es \<Longrightarrow> R k (emits es t)"
proof (induction es arbitrary: t)
  case Nil
  then show ?case by (simp add: emits_def)
next
  case (Cons e es)
  then have "R k (emits es (emit e t))" by (simp add: after del: emit_emits)
  then show ?case by simp
qed

lemma main:
  assumes "core_inv k"
  shows "ensures (TcpIp_MainFunction env k) (R k)"
proof -
  define s1 where "s1 bytes = (emit (Macphy_pkt_recv ETHERNET_MTU) k)
    \<lparr>Lwip_EthPkt := overlay bytes (Lwip_EthPkt k)\<rparr>" for bytes
  have s1: "core_inv (s1 bytes)" "R k (s1 bytes)" if "length bytes \<le> length (Lwip_EthPkt k)" for bytes
    using assms that by (simp_all add: s1_def after(2) [OF after(1) [OF refl]])
  have last: "ensures (call_cbs env Sys_check_timeouts t) (R k)" if "core_inv t \<and> R k t" for t
    using that by (auto intro!: ensures_mono [OF calls])
  have timers: "ensures (input_loop env p MAX_TCPIP_LOCAL_ADDRESS 0 t)
      (\<lambda>u. ensures (call_cbs env Sys_check_timeouts u) (R k))" if "core_inv t \<and> R k t" for t p
    using that last by (auto intro!: ensures_mono [OF loop])
  show ?thesis
    by (auto simp: TcpIp_MainFunction_def lwip_int_main_def Let_def call_ptr_def s1_def [symmetric]
        simp del: emit_emits split: prod.splits if_splits intro!: last timers s1 after)
qed

lemma init:
  assumes "core_inv k"
  shows "ensures (TcpIp_Init env cfg k) (R k)"
  using assms
  by (auto simp: TcpIp_Init_def lwip_int_init_def init_loop.simps MAX_TCPIP_LOCAL_ADDRESS_def
      init_netif_def Let_def netif_initialize_def emits [OF refl]
      intro!: ensures_mono [OF calls])

end

subsection \<open>The service\<close>

text \<open>The packet that waits, the connection, and the requests made of lwIP so far.\<close>

type_synonym service = "cptr option \<times> cptr \<times> trace"

definition service :: "tcpip_state \<Rightarrow> service" where
  "service k = (rx_content (rx k), tcpip_raw_pcb k, filter request (tr k))"

text \<open>The steps on the connection, each from one state of the service to another.\<close>

fun bind_step :: "u16 option \<Rightarrow> service \<Rightarrow> service \<Rightarrow> bool" where
  "bind_step port (w, p, q) (w', p', q') \<longleftrightarrow> w' = w \<and>
     (if port = None \<and> p \<noteq> None then p' = p \<and> q' = q
      else p' = None \<and> q' = q @ [Tcp_new_ip_type_any] \<or>
        (\<exists>n. port = Some n \<and> p' \<noteq> None \<and> q' = q @ [Tcp_new_ip_type_any, Tcp_bind_any p' n]))"

fun listen_step :: "service \<Rightarrow> service \<Rightarrow> bool" where
  "listen_step (w, p, q) (w', p', q') \<longleftrightarrow> w' = w \<and>
     (p' = p \<and> q' = q \<or> p \<noteq> None \<and> q' = q @ [Tcp_listen p, Tcp_accept p' (Some Fn_raw_accept)])"

fun connect_step :: "TcpIp_SockAddrType option \<Rightarrow> service \<Rightarrow> service \<Rightarrow> bool" where
  "connect_step remote (w, p, q) (w', p', q') \<longleftrightarrow> w' = w \<and> p' = p \<and>
     (q' = q @ [Tcp_new] \<or>
      (\<exists>a c. remote = Some a \<and>
         q' = q @ [Tcp_new, Tcp_connect (Some c) (inet4_addr0 a) (sa_port a) Fn_raw_connected]))"

fun recv_step :: "u8 list option \<Rightarrow> service \<Rightarrow> service \<Rightarrow> bool" where
  "recv_step d (w, p, q) x \<longleftrightarrow> x = (if d = None then w else None, p, q)"

fun send_step :: "u8 list option \<Rightarrow> u16 \<Rightarrow> service \<Rightarrow> service \<Rightarrow> bool" where
  "send_step d n (w, p, q) x \<longleftrightarrow>
     x = (w, p, q @ (case d of None \<Rightarrow> [] | Some bytes \<Rightarrow> [Tcp_write p bytes n 1]))"

text \<open>
  The step of each function. The periodic function and the initialisation may queue a packet
  where none waits and, when a connection is accepted, change it, but make no request; a call
  on a socket is the step of the function below it, or none.
\<close>

fun service_step :: "service \<Rightarrow> api_op \<Rightarrow> service \<Rightarrow> bool" where
  "service_step (w, p, q) Op_Init (w', p', q') \<longleftrightarrow> (w \<noteq> None \<longrightarrow> w' = w) \<and> q' = q"
| "service_step (w, p, q) Op_MainFunction (w', p', q') \<longleftrightarrow> (w \<noteq> None \<longrightarrow> w' = w) \<and> q' = q"
| "service_step x (Op_Bind i a port) y \<longleftrightarrow> bind_step port x y"
| "service_step x (Op_TcpListen i m) y \<longleftrightarrow> listen_step x y"
| "service_step x (Op_TcpConnect i remote) y \<longleftrightarrow> connect_step remote x y"
| "service_step x (Op_recv d) y \<longleftrightarrow> recv_step d x y"
| "service_step x (Op_send d n) y \<longleftrightarrow> send_step d n x y"
| "service_step x (Op_bind fd port) y \<longleftrightarrow> y = x \<or> bind_step (Some port) x y"
| "service_step x (Op_listen fd) y \<longleftrightarrow> y = x \<or> listen_step x y"
| "service_step x (Op_socket_recv fd d n) y \<longleftrightarrow> y = x \<or> recv_step d x y"
| "service_step x (Op_socket_send fd d n) y \<longleftrightarrow> y = x \<or> n \<noteq> 0 \<and> send_step d (ucast n) x y"
| "service_step x op y \<longleftrightarrow> y = x"

subsection \<open>The functions of the connection\<close>

lemma connection_steps:
  "ensures (TcpIp_Bind env i a port k) (\<lambda>(r, k'). bind_step port (service k) (service k'))"
  "ensures (TcpIp_TcpListen env i m k) (\<lambda>(r, k'). listen_step (service k) (service k'))"
  "ensures (TcpIp_TcpConnect env i remote k) (\<lambda>(r, k'). connect_step remote (service k) (service k'))"
  "ensures (TcpIp_send env d n k) (\<lambda>(r, k'). send_step d n (service k) (service k'))"
  "service (snd (TcpIp_Close i ab k)) = service k"
  by (auto simp: service_def TcpIp_Bind_def TcpIp_TcpListen_def TcpIp_TcpConnect_def TcpIp_send_def
      TcpIp_Close_def tcpip_raw_close_def call_ptr_def call_err_def Let_def
      split: option.splits intro!: ensuresI)

lemma recv_service:
  assumes "core_inv k"
  shows "ensures (TcpIp_recv env d k) (\<lambda>(r, d', k'). recv_step d (service k) (service k'))"
proof -
  from pop_inv [OF core_inv_rx(1) [OF assms]] obtain m r
    where "pop_pbuf_from_rx_ctrl_blk (rx k) = Inr (m, r)" "rx_content r = None"
    by (auto simp: returns_iff)
  then show ?thesis
    by (auto simp: TcpIp_recv_def service_def Let_def split: option.splits intro!: ensuresI)
qed

subsection \<open>The functions that run callbacks\<close>

definition kept :: "tcpip_state \<Rightarrow> tcpip_state \<Rightarrow> bool" where
  "kept k k' \<longleftrightarrow> (rx_content (rx k) \<noteq> None \<longrightarrow> rx_content (rx k') = rx_content (rx k)) \<and>
     filter request (tr k') = filter request (tr k)"

lemma callback_kept: "core_inv k \<Longrightarrow> ensures (run_callback env cb k) (kept k)"
  by (cases cb)
     (auto simp: kept_def run_callback_def tcpip_raw_recv_def tcpip_raw_close_def tcpip_raw_accept_def
        tcpip_raw_error_def tcpip_raw_connected_def netif_output_def netif_status_callback_def Let_def
        push_eq core_inv_rx push_value_content split: if_splits option.splits intro!: ensuresI)

interpretation keeping: callback_relation kept
  by unfold_locales (auto simp: kept_def intro: callback_kept)

lemma kept_service: "kept k k' \<Longrightarrow> service_step (service k) Op_MainFunction (service k')"
  "kept k k' \<Longrightarrow> service_step (service k) Op_Init (service k')"
  by (simp_all add: kept_def service_def)

subsection \<open>The module is the service\<close>

lemma socket_steps:
  assumes "sock_inv s"
  shows "ensures (TcpIp_Socket_Bind env fd port s) (\<lambda>(r, s').
      service_step (service (core s)) (Op_bind fd port) (service (core s')))"
    "ensures (TcpIp_Socket_Listen env fd s) (\<lambda>(r, s').
      service_step (service (core s)) (Op_listen fd) (service (core s')))"
    "ensures (TcpIp_Socket_Recv env fd d n s) (\<lambda>(r, d', s').
      service_step (service (core s)) (Op_socket_recv fd d n) (service (core s')))"
    "ensures (TcpIp_Socket_Send env fd d n s) (\<lambda>(r, s').
      service_step (service (core s)) (Op_socket_send fd d n) (service (core s')))"
proof -
  from assms have inv: "core_inv (core s)" by (simp add: sock_inv_def)
  note steps = ensures_mono [OF connection_steps(1)] ensures_mono [OF connection_steps(2)]
    ensures_mono [OF connection_steps(4)] ensures_mono [OF recv_service [OF inv]]
  show "ensures (TcpIp_Socket_Bind env fd port s) (\<lambda>(r, s').
      service_step (service (core s)) (Op_bind fd port) (service (core s')))"
    by (rule fd_bind.ensures_cases [OF assms]) (auto simp: Bind_valid intro!: steps)
  show "ensures (TcpIp_Socket_Listen env fd s) (\<lambda>(r, s').
      service_step (service (core s)) (Op_listen fd) (service (core s')))"
    by (rule fd_listen.ensures_cases [OF assms]) (auto simp: Listen_valid intro!: steps)
  show "ensures (TcpIp_Socket_Recv env fd d n s) (\<lambda>(r, d', s').
      service_step (service (core s)) (Op_socket_recv fd d n) (service (core s')))"
    by (rule fd_recv.ensures_cases [OF assms]) (auto simp: Recv_valid intro!: steps)
  show "ensures (TcpIp_Socket_Send env fd d n s) (\<lambda>(r, s').
      service_step (service (core s)) (Op_socket_send fd d n) (service (core s')))"
    by (rule fd_send.ensures_cases [OF assms]) (auto simp: Send_valid word_gt_0 intro!: steps)
qed

lemma api_service:
  assumes "sock_inv s"
  shows "ensures (api_call env op s) (\<lambda>s'. service_step (service (core s)) op (service (core s')))"
proof (cases op)
  case Op_Init
  then show ?thesis using keeping.init [of "core s" env None] assms
    by (auto simp: api_call_def on_core_def sock_inv_def elim!: ensures_mono intro: kept_service)
next
  case Op_MainFunction
  then show ?thesis using keeping.main [of "core s" env] assms
    by (auto simp: api_call_def on_core_def sock_inv_def elim!: ensures_mono intro: kept_service)
next
  case (Op_socket fd)
  then show ?thesis by (auto intro!: ensures_mono [OF open_effect [OF assms]])
next
  case (Op_Main_Loop f i)
  then show ?thesis using poll_effect [of f i 0 s]
    by (auto simp: api_call_def TcpIp_Socket_Main_Loop_def elim!: ensures_mono)
next
  case (Op_accept fd)
  then show ?thesis using sock_effects(2) [OF assms, of fd]
    by (auto simp: api_call_def accept_call_def elim!: ensures_mono)
next
  case (Op_recv d)
  then show ?thesis using recv_service [of "core s" env d] assms
    by (auto simp: api_call_def on_core_def sock_inv_def elim!: ensures_mono)
qed (use assms in \<open>auto simp: api_call_def on_core_def bind_call_def listen_call_def recv_call_def
      send_call_def connection_steps intro!: socket_steps [THEN ensures_mono]
      connection_steps(1-4) [THEN ensures_mono]\<close>)

interpretation module_service: refinement_map "sys_step env" socket_init sock_inv service_step
  "(None, None, [])" "\<lambda>s. service (core s)" for env
  by unfold_locales
    (auto simp: service_def socket_init_def tcpip_init_def rx_content_def rx_init_def
      elim!: sys_stepE dest!: ensuresD [OF api_service])

subsection \<open>Runs of the service\<close>

text \<open>
  The data a list of calls into lwIP hands over to be sent; what each call of the module asks to
  send, and what of it the module has to hand over, a socket being able to refuse; and whether
  the call takes the waiting packet.
\<close>

definition written :: "trace \<Rightarrow> (u8 list \<times> u16) list" where
  "written t = concat (map (\<lambda>e. case e of Tcp_write p bytes n f \<Rightarrow> [(bytes, n)] | _ \<Rightarrow> []) t)"




lemma written_simps [simp]: "written [] = []"
  "written (e # t) = (case e of Tcp_write p bytes n f \<Rightarrow> [(bytes, n)] | _ \<Rightarrow> []) @ written t"
  "written (t @ u) = written t @ written u"
  by (simp_all add: written_def)





subsection \<open>Properties\<close>

text \<open>C3: every function of the module is the step of an abstract service that its caller can rely
  on. The service has a waiting packet, a connection and the requests made of lwIP; in every
  reachable state, a call of any function that comes back changes them only as its step says:
  the periodic function and the initialisation make no request and never drop or replace a
  waiting packet, whatever lwIP calls back; a receive takes the packet and makes no request; a
  send makes one write, on the current connection; a bind asks for a connection and then for its
  port; a connect never changes the connection; the other calls do nothing the service can
  see. So the module refines the service.\<close>
theorem calls_obey_service_contract:
  assumes "reach (sys_step env) socket_init s" and "api_call env op s = Inr s'"
  shows "service_step (service (core s)) op (service (core s')) \<and>
    reach service_step (None, None, []) (service (core s'))"
proof
  note step = sys_stepI [OF assms(2)]
  show "service_step (service (core s)) op (service (core s'))"
    by (rule module_service.view_step [OF sys.reach_inv [OF assms(1)] step])
  show "reach service_step (None, None, []) (service (core s'))"
    by (rule module_service.view_reach [OF reach_step [OF assms(1) step]])
qed

theorem calls_obey_service_contract_witness:
  "\<exists>s'. api_call demo_env (Op_Bind 0 0 (Some 80)) socket_init = Inr s' \<and>
     reach service_step (None, None, [])
       (None, Some 1, [Tcp_new_ip_type_any, Tcp_bind_any (Some 1) 80])"
proof -
  obtain s' where s': "api_call demo_env (Op_Bind 0 0 (Some 80)) socket_init = Inr s'"
    "service (core s') = (None, Some 1, [Tcp_new_ip_type_any, Tcp_bind_any (Some 1) 80])"
    by (auto simp: api_call_def on_core_def TcpIp_Bind_def call_ptr_def call_err_def Let_def demo_env_def
        socket_init_def tcpip_init_def service_def rx_content_def rx_init_def)
  with calls_obey_service_contract [OF reach_init s'(1)] show ?thesis by auto
qed



end
