(* ===== verification/Conn_Race.thy ===== *)
theory Conn_Race
  imports Tcp_Core
begin

text \<open>
  The second variable that two tasks share: \<open>tcpip_raw_pcb\<close> of \<open>src/TcpIp.c\<close>. The
  accept callback, which lwIP runs in the periodic task, stores the new connection in it; the
  functions the application calls read it several times, and store to it. Here these functions
  are taken apart, a step being one read or one write of the variable with what is done with it
  before the next, and the callback, which accesses the variable once, may run between any two
  steps.
\<close>

subsection \<open>The functions of the application, step by step\<close>

text \<open>
  \<open>TcpIp_Bind\<close>: the test of the arguments, the new connection, its store, the test of the
  variable, the bind. \<open>TcpIp_TcpListen\<close>: the test of the variable, the read of the state, the
  listen, its store, the registration of the callback. \<open>TcpIp_send\<close>: the write, the read of
  the state for the log. \<open>TcpIp_Close\<close>: the test, the close.
\<close>

datatype conn_pc =
    B_check "u16 option" | B_new "u16 option" | B_store cptr "u16 option" | B_test "u16 option"
  | B_bind "u16 option"
  | L_check | L_state | L_listen | L_store cptr | L_accept
  | S_write "u8 list option" u16 | S_log int
  | C_check | C_close
  | Returned Std_ReturnType | Returned_int int

type_synonym conn_state = "conn_pc \<times> tcpip_state"

definition write_step :: "lwip_env \<Rightarrow> u8 list option \<Rightarrow> u16 \<Rightarrow> tcpip_state \<Rightarrow> conn_state result" where
  "write_step env pdata n s =
     (case pdata of
        None \<Rightarrow> Inr (Returned_int (-1), s)
      | Some bytes \<Rightarrow>
          if length bytes < unat n then Inl OutOfBounds
          else
          let (wr_err, s) = call_err env (Tcp_write (tcpip_raw_pcb s) bytes n 1) s
          in Inr (if wr_err = ERR_OK then Returned_int 0
                  else S_log (if wr_err = ERR_MEM then -2 else -3), s))"

definition log_step :: "lwip_env \<Rightarrow> int \<Rightarrow> tcpip_state \<Rightarrow> conn_state result" where
  "log_step env retval s =
     rbind (read_pcb_state env (tr s) (tcpip_raw_pcb s)) (\<lambda>_. Inr (Returned_int retval, s))"

fun conn_step :: "lwip_env \<Rightarrow> conn_state \<Rightarrow> conn_state result" where
  "conn_step env (B_check port, s) =
     Inr (if port = None \<and> tcpip_raw_pcb s \<noteq> None then Returned E_NOT_OK else B_new port, s)"
| "conn_step env (B_new port, s) =
     (let (pcb, s) = call_ptr env Tcp_new_ip_type_any s in Inr (B_store pcb port, s))"
| "conn_step env (B_store pcb port, s) = Inr (B_test port, s\<lparr>tcpip_raw_pcb := pcb\<rparr>)"
| "conn_step env (B_test port, s) =
     Inr (if tcpip_raw_pcb s \<noteq> None then B_bind port else Returned E_OK, s)"
| "conn_step env (B_bind port, s) =
     (case port of
        None \<Rightarrow> Inl NullDeref
      | Some n \<Rightarrow>
          let (err, s) = call_err env (Tcp_bind_any (tcpip_raw_pcb s) n) s
          in Inr (Returned (if err \<noteq> ERR_OK then E_NOT_OK else E_OK), s))"
| "conn_step env (L_check, s) =
     Inr (if tcpip_raw_pcb s = None then Returned E_NOT_OK else L_state, s)"
| "conn_step env (L_state, s) =
     rbind (read_pcb_state env (tr s) (tcpip_raw_pcb s)) (\<lambda>state.
       Inr (if state < conn_val TCPIP_LISTEN then L_listen else Returned E_NOT_OK, s))"
| "conn_step env (L_listen, s) =
     (let (pcb, s) = call_ptr env (Tcp_listen (tcpip_raw_pcb s)) s in Inr (L_store pcb, s))"
| "conn_step env (L_store pcb, s) = Inr (L_accept, s\<lparr>tcpip_raw_pcb := pcb\<rparr>)"
| "conn_step env (L_accept, s) =
     Inr (Returned E_OK, emit (Tcp_accept (tcpip_raw_pcb s) (Some Fn_raw_accept)) s)"
| "conn_step env (S_write pdata n, s) = write_step env pdata n s"
| "conn_step env (S_log retval, s) = log_step env retval s"
| "conn_step env (C_check, s) =
     Inr (if tcpip_raw_pcb s = None then Returned E_NOT_OK else C_close, s)"
| "conn_step env (C_close, s) = Inr (Returned E_OK, tcpip_raw_close (tcpip_raw_pcb s) s)"
| "conn_step env (Returned r, s) = Inr (Returned r, s)"
| "conn_step env (Returned_int r, s) = Inr (Returned_int r, s)"

text \<open>A schedule: a step of the application, or the whole accept callback.\<close>

datatype conn_move = App | Accepted cptr err_t

fun conn_run :: "lwip_env \<Rightarrow> conn_move list \<Rightarrow> conn_state \<Rightarrow> conn_state result" where
  "conn_run env [] x = Inr x"
| "conn_run env (App # ms) x = rbind (conn_step env x) (conn_run env ms)"
| "conn_run env (Accepted newpcb err # ms) (pc, s) =
     conn_run env ms (pc, snd (tcpip_raw_accept newpcb err s))"

lemma conn_run_append: "conn_run env (ms @ ns) x = rbind (conn_run env ms x) (conn_run env ns)"
proof (induction ms arbitrary: x)
  case (Cons m ms)
  then show ?case
    by (cases m; cases x) (auto simp: rbind_assoc intro!: rbind_cong)
qed simp

lemma returned_stays [simp]:
  "conn_run env (replicate m App) (Returned r, s) = Inr (Returned r, s)"
  "conn_run env (replicate m App) (Returned_int i, s) = Inr (Returned_int i, s)"
  by (induction m) simp_all

lemma at_least_five: "5 \<le> m \<Longrightarrow> \<exists>k. m = Suc (Suc (Suc (Suc (Suc k))))"
  by (rule exI [of _ "m - 5"]) simp

subsection \<open>Alone, the steps are the calls\<close>

lemma alone:
  assumes "5 \<le> m"
  shows "conn_run env (replicate m App) (B_check port, s) =
      rbind (TcpIp_Bind env i a port s) (\<lambda>(r, s). Inr (Returned r, s))"
    "conn_run env (replicate m App) (L_check, s) =
      rbind (TcpIp_TcpListen env i c s) (\<lambda>(r, s). Inr (Returned r, s))"
    "conn_run env (replicate m App) (S_write pdata n, s) =
      rbind (TcpIp_send env pdata n s) (\<lambda>(r, s). Inr (Returned_int r, s))"
    "conn_run env (replicate m App) (C_check, s) =
      Inr (Returned (fst (TcpIp_Close i ab s)), snd (TcpIp_Close i ab s))"
proof -
  from at_least_five [OF assms] obtain k where m: "m = Suc (Suc (Suc (Suc (Suc k))))" ..
  show "conn_run env (replicate m App) (B_check port, s) =
      rbind (TcpIp_Bind env i a port s) (\<lambda>(r, s). Inr (Returned r, s))"
    by (cases port) (simp_all add: m TcpIp_Bind_def call_ptr_def call_err_def Let_def)
  show "conn_run env (replicate m App) (L_check, s) =
      rbind (TcpIp_TcpListen env i c s) (\<lambda>(r, s). Inr (Returned r, s))"
    by (cases "read_pcb_state env (tr s) (tcpip_raw_pcb s)")
       (simp_all add: m TcpIp_TcpListen_def call_ptr_def Let_def)
  show "conn_run env (replicate m App) (S_write pdata n, s) =
      rbind (TcpIp_send env pdata n s) (\<lambda>(r, s). Inr (Returned_int r, s))"
    by (cases pdata) (simp_all add: m write_step_def log_step_def TcpIp_send_def call_err_def Let_def rbind_assoc)
  show "conn_run env (replicate m App) (C_check, s) =
      Inr (Returned (fst (TcpIp_Close i ab s)), snd (TcpIp_Close i ab s))"
    by (simp add: m TcpIp_Close_def)
qed

subsection \<open>With one accept in between\<close>

text \<open>The callback after \<open>j\<close> steps of the application, which then goes on for \<open>m\<close>.\<close>

definition meeting :: "nat \<Rightarrow> cptr \<Rightarrow> err_t \<Rightarrow> nat \<Rightarrow> conn_move list" where
  "meeting j newpcb err m = replicate j App @ Accepted newpcb err # replicate m App"

lemma accept_simps [simp]:
  "tcpip_raw_pcb (snd (tcpip_raw_accept newpcb err s)) = newpcb"
  "filter request (tr (snd (tcpip_raw_accept newpcb err s))) = filter request (tr s)"
  "Tcp_close q \<in> set (tr (snd (tcpip_raw_accept newpcb err s))) \<longleftrightarrow> Tcp_close q \<in> set (tr s)"
  by (auto simp: tcpip_raw_accept_def Let_def)

text \<open>The callback meets a function of five steps before one of them, or after the last.\<close>

lemma six_points: "j = 0 \<or> j = 1 \<or> j = 2 \<or> j = 3 \<or> j = 4 \<or> (\<exists>k. j = Suc (Suc (Suc (Suc (Suc k)))))" for j :: nat
proof (cases "5 \<le> j")
  case True
  then show ?thesis using at_least_five by blast
qed (simp, linarith)

text \<open>An environment with a listener at 1, whose next listen gives 6, and new connections at 5.\<close>

definition meet_env :: lwip_env where
  "meet_env = demo_env
     \<lparr>ans_ptr := (\<lambda>t. if last t = Tcp_new_ip_type_any then Some 5
        else if last t = Tcp_listen (Some 1) then Some 6 else None),
      pcb_state_at := (\<lambda>t a. Some (if a = 1 then 1 else 4))\<rparr>"

subsection \<open>With any number of accepts in between\<close>

text \<open>
  Clients that lwIP accepts one after the other, and a schedule in which the \<open>i\<close>-th group of
  clients is accepted before the \<open>i\<close>-th step of the application.
\<close>

type_synonym clients = "(nat \<times> err_t) list"

definition accept_all :: "clients \<Rightarrow> conn_move list" where
  "accept_all cs = map (\<lambda>(c, err). Accepted (Some c) err) cs"

definition after_clients :: "clients \<Rightarrow> tcpip_state \<Rightarrow> tcpip_state" where
  "after_clients cs s = fold (\<lambda>(c, err) s. snd (tcpip_raw_accept (Some c) err s)) cs s"

definition woven :: "clients list \<Rightarrow> conn_move list" where
  "woven css = concat (map (\<lambda>cs. accept_all cs @ [App]) css)"

text \<open>The connection in the variable: the last client, or the one from before.\<close>

definition latest :: "cptr \<Rightarrow> clients \<Rightarrow> cptr" where
  "latest x cs = last (x # map (\<lambda>(c, err). Some c) cs)"

lemma latest_simps [simp]: "latest x [] = x" "latest x ((c, err) # cs) = latest (Some c) cs"
  "latest x (cs @ ds) = latest (latest x cs) ds"
  by (simp_all add: latest_def)

lemma latest_client:
  assumes "cs \<noteq> []"
  shows "\<exists>c \<in> fst ` set cs. latest x cs = Some c"
proof
  from assms show "latest x cs = Some (fst (last cs))"
    by (simp add: latest_def last_map split: prod.split)
  from assms show "fst (last cs) \<in> fst ` set cs" by simp
qed

lemma latest_not_None: "x \<noteq> None \<Longrightarrow> latest x cs \<noteq> None"
  using latest_client [of cs x] by (cases "cs = []") auto

lemma woven_simps [simp]: "woven [] = []" "woven (cs # css) = accept_all cs @ App # woven css"
  by (simp_all add: woven_def)

lemma accept_all_run [simp]:
  "conn_run env (accept_all cs @ ms) (pc, s) = conn_run env ms (pc, after_clients cs s)"
  by (induction cs arbitrary: s) (auto simp: accept_all_def after_clients_def)

lemma after_clients_simps [simp]:
  "tcpip_raw_pcb (after_clients cs s) = latest (tcpip_raw_pcb s) cs"
  "filter request (tr (after_clients cs s)) = filter request (tr s)"
  "Tcp_close q \<in> set (tr (after_clients cs s)) \<longleftrightarrow> Tcp_close q \<in> set (tr s)"
  by (induction cs arbitrary: s) (auto simp: after_clients_def)

subsection \<open>Properties\<close>

text \<open>Run without a callback in between, the steps of bind, listen, send and close are the
  functions: five steps or more give their results, their effects and their faults.\<close>
theorem connection_steps_equal_calls:
  assumes "5 \<le> m"
  shows "conn_run env (replicate m App) (B_check port, s) =
      rbind (TcpIp_Bind env i a port s) (\<lambda>(r, s). Inr (Returned r, s)) \<and>
    conn_run env (replicate m App) (L_check, s) =
      rbind (TcpIp_TcpListen env i c s) (\<lambda>(r, s). Inr (Returned r, s)) \<and>
    conn_run env (replicate m App) (S_write pdata n, s) =
      rbind (TcpIp_send env pdata n s) (\<lambda>(r, s). Inr (Returned_int r, s)) \<and>
    conn_run env (replicate m App) (C_check, s) =
      Inr (Returned (fst (TcpIp_Close i ab s)), snd (TcpIp_Close i ab s))"
  by (intro conjI alone [OF assms])

theorem connection_steps_equal_calls_witness:
  "conn_run demo_env [App, App, App, App, App] (C_check, tcpip_init) = Inr (Returned E_NOT_OK, tcpip_init)"
  using connection_steps_equal_calls [where m = 5 and env = demo_env and s = tcpip_init,
      THEN conjunct2, THEN conjunct2, THEN conjunct2]
  by (simp add: eval_nat_numeral TcpIp_Close_def tcpip_init_def)

text \<open>A bind that meets an accept loses one of the two connections. While the application
  binds, lwIP accepts a client of an earlier listener. Before the store of the bind, the
  accepted connection is overwritten; after it, the new one is, and up to the call of lwIP the
  port is bound on the accepted connection instead of the new one. Whatever the moment, the
  variable keeps one of them and neither is closed.\<close>
theorem bind_meets_accept:
  assumes "\<And>t. ans_ptr env (t @ [Tcp_new_ip_type_any]) = Some p" and "5 \<le> m"
  shows "returns (conn_run env (meeting j (Some c) err m) (B_check (Some port), s)) (\<lambda>(pc, s').
    tcpip_raw_pcb s' = (if j \<le> 2 then Some p else Some c) \<and>
    filter request (tr s') = filter request (tr s) @
      [Tcp_new_ip_type_any, Tcp_bind_any (if j \<in> {3, 4} then Some c else Some p) port] \<and>
    {q. Tcp_close q \<in> set (tr s')} = {q. Tcp_close q \<in> set (tr s)})"
proof -
  from at_least_five [OF assms(2)] obtain k where m: "m = Suc (Suc (Suc (Suc (Suc k))))" ..
  show ?thesis
    using six_points [of j] assms(1)
    by (auto simp: meeting_def m conn_run_append call_ptr_def call_err_def Let_def numeral_eq_Suc)
qed

theorem bind_meets_accept_witness:
  "returns (conn_run meet_env (meeting 4 (Some 9) ERR_OK 5) (B_check (Some 80), tcpip_init)) (\<lambda>(pc, s').
     tcpip_raw_pcb s' = Some 9 \<and> filter request (tr s') = [Tcp_new_ip_type_any, Tcp_bind_any (Some 9) 80])"
proof -
  have "ans_ptr meet_env (t @ [Tcp_new_ip_type_any]) = Some 5" for t by (simp add: meet_env_def)
  from bind_meets_accept [OF this, of 5 4 9 ERR_OK 80 tcpip_init] show ?thesis
    by (auto simp: tcpip_init_def elim!: returns_mono)
qed

text \<open>A listen that meets an accept. With a listening connection in the variable, lwIP accepts
  a client while the application listens again. Up to the read of the state the listen is
  refused; before the call, it listens on the client's connection; before the store, the
  client's connection is overwritten; before the registration, the accept callback is registered
  on the client's connection and the new listener has none. Only after the call is all as it
  should be; the application is told success in every case but the first.\<close>
theorem listen_meets_accept:
  assumes "tcpip_raw_pcb s = Some l" and "\<And>t. pcb_state_at env t l = Some 1"
    and "\<And>t. pcb_state_at env t c = Some 4"
    and "\<And>t. ans_ptr env (t @ [Tcp_listen (Some l)]) = Some q"
    and "\<And>t. ans_ptr env (t @ [Tcp_listen (Some c)]) = r" and "5 \<le> m"
  shows "returns (conn_run env (meeting j (Some c) err m) (L_check, s)) (\<lambda>(pc, s').
    pc = Returned (if j \<le> 1 then E_NOT_OK else E_OK) \<and>
    tcpip_raw_pcb s' = (if j = 2 then r else if j = 3 then Some q else Some c) \<and>
    filter request (tr s') = filter request (tr s) @
      (if j \<le> 1 then []
       else if j = 2 then [Tcp_listen (Some c), Tcp_accept r (Some Fn_raw_accept)]
       else [Tcp_listen (Some l), Tcp_accept (if j = 4 then Some c else Some q) (Some Fn_raw_accept)]))"
proof -
  from at_least_five [OF assms(6)] obtain k where m: "m = Suc (Suc (Suc (Suc (Suc k))))" ..
  show ?thesis
    using six_points [of j] assms(1-5)
    by (auto simp: meeting_def m conn_run_append call_ptr_def Let_def read_pcb_state_def numeral_eq_Suc)
qed

theorem listen_meets_accept_witness:
  "returns (conn_run meet_env (meeting 2 (Some 9) ERR_OK 5) (L_check, tcpip_init\<lparr>tcpip_raw_pcb := Some 1\<rparr>))
     (\<lambda>(pc, s'). pc = Returned E_OK \<and> tcpip_raw_pcb s' = None \<and>
       filter request (tr s') = [Tcp_listen (Some 9), Tcp_accept None (Some Fn_raw_accept)])"
proof -
  let ?s = "tcpip_init\<lparr>tcpip_raw_pcb := Some 1\<rparr>"
  have "returns (conn_run meet_env (meeting 2 (Some 9) ERR_OK 5) (L_check, ?s)) (\<lambda>(pc, s').
    pc = Returned (if 2 \<le> (1 :: nat) then E_NOT_OK else E_OK) \<and>
    tcpip_raw_pcb s' = (if 2 = (2 :: nat) then None else if 2 = (3 :: nat) then Some 6 else Some 9) \<and>
    filter request (tr s') = filter request (tr ?s) @
      (if 2 \<le> (1 :: nat) then []
       else if 2 = (2 :: nat) then [Tcp_listen (Some 9), Tcp_accept None (Some Fn_raw_accept)]
       else [Tcp_listen (Some 1), Tcp_accept (if 2 = (4 :: nat) then Some 9 else Some 6) (Some Fn_raw_accept)]))"
    by (rule listen_meets_accept) (simp_all add: meet_env_def)
  then show ?thesis by (auto simp: tcpip_init_def elim!: returns_mono)
qed

text \<open>C16: a failed accept defeats the tests for NULL. lwIP reports an accept it has no memory for
  with a NULL connection, which the callback stores before it looks at it: a listen that has
  passed its test dereferences NULL, which it never does alone, and a close that has passed its
  test closes NULL instead of the connection.\<close>
theorem failed_accept_defeats_null_checks:
  assumes "tcpip_raw_pcb s = Some l" and "5 \<le> m"
  shows "conn_run env (meeting 1 None err m) (L_check, s) = Inl NullDeref \<and>
    TcpIp_TcpListen env i n s \<noteq> Inl NullDeref \<and>
    returns (conn_run env (meeting 1 None err m) (C_check, s)) (\<lambda>(pc, s').
      pc = Returned E_OK \<and> last (tr s') = Tcp_close None) \<and>
    last (tr (snd (TcpIp_Close i ab s))) = Tcp_close (Some l)"
proof -
  from at_least_five [OF assms(2)] obtain k where m: "m = Suc (Suc (Suc (Suc (Suc k))))" ..
  show ?thesis
    using assms(1)
    by (auto simp: meeting_def m conn_run_append read_pcb_state_def TcpIp_TcpListen_def call_ptr_def
        TcpIp_Close_def tcpip_raw_close_def rbind_Inl_iff Let_def split: option.splits if_splits)
qed

theorem failed_accept_defeats_null_checks_witness:
  "conn_run demo_env (meeting 1 None ERR_MEM 5) (L_check, tcpip_init\<lparr>tcpip_raw_pcb := Some 1\<rparr>) = Inl NullDeref \<and>
   TcpIp_TcpListen demo_env 0 0 (tcpip_init\<lparr>tcpip_raw_pcb := Some 1\<rparr>) \<noteq> Inl NullDeref"
  using failed_accept_defeats_null_checks [of "tcpip_init\<lparr>tcpip_raw_pcb := Some 1\<rparr>" 1 5 demo_env ERR_MEM 0 0]
  by simp

text \<open>C14: a bind that meets clients of an earlier listener loses all connections but one. Whatever
  groups of clients lwIP accepts before each of its steps and after the last, the variable ends
  with the last one written to it: the clients accepted before the store are overwritten by the
  new connection, and it by the clients after. The port is bound on the last client accepted
  between the store and the call, and not on the new connection, if there is one. None of the
  connections is closed.\<close>
theorem bind_meets_clients:
  assumes "\<And>t. ans_ptr env (t @ [Tcp_new_ip_type_any]) = Some p"
  shows "returns (conn_run env (woven [c0, c1, c2, c3, c4, c5]) (B_check (Some port), s)) (\<lambda>(pc, s').
    tcpip_raw_pcb s' = latest (Some p) (c3 @ c4 @ c5) \<and>
    filter request (tr s') = filter request (tr s) @
      [Tcp_new_ip_type_any, Tcp_bind_any (latest (Some p) (c3 @ c4)) port] \<and>
    {q. Tcp_close q \<in> set (tr s')} = {q. Tcp_close q \<in> set (tr s)})"
  by (simp add: call_ptr_def call_err_def Let_def assms latest_not_None)

theorem bind_meets_clients_witness:
  "returns (conn_run meet_env (woven [[(7, ERR_OK)], [], [], [(8, ERR_OK), (9, ERR_OK)], [], []])
      (B_check (Some 80), tcpip_init)) (\<lambda>(pc, s').
     tcpip_raw_pcb s' = Some 9 \<and> filter request (tr s') = [Tcp_new_ip_type_any, Tcp_bind_any (Some 9) 80])"
proof -
  have "ans_ptr meet_env (t @ [Tcp_new_ip_type_any]) = Some 5" for t by (simp add: meet_env_def)
  from bind_meets_clients [OF this, of "[(7, ERR_OK)]" "[]" "[]" "[(8, ERR_OK), (9, ERR_OK)]" "[]" "[]" 80 tcpip_init]
  show ?thesis by (auto simp: tcpip_init_def elim!: returns_mono)
qed

text \<open>C15: a listen that meets clients. With a listening connection \<open>l\<close> in the variable, lwIP
  accepts groups of clients before each step of another listen and after the last. It is refused
  if there was a client before the read of the state. If not, it listens on the last client
  accepted before the call, if there is one, overwrites those accepted before its store, and
  registers the accept callback on the last client accepted after it instead of the new
  listener, if there is one; the application is told success.\<close>
theorem listen_meets_clients:
  assumes "tcpip_raw_pcb s = Some l" and "\<And>t. pcb_state_at env t l = Some 1"
    and "\<And>t c. c \<noteq> l \<Longrightarrow> pcb_state_at env t c = Some 4" and "l \<notin> fst ` set (c0 @ c1)"
    and "\<And>t x. ans_ptr env (t @ [Tcp_listen x]) = listener x"
  shows "returns (conn_run env (woven [c0, c1, c2, c3, c4, c5]) (L_check, s)) (\<lambda>(pc, s').
    if c0 @ c1 \<noteq> [] then pc = Returned E_NOT_OK \<and>
      tcpip_raw_pcb s' = latest (Some l) (c0 @ c1 @ c2 @ c3 @ c4 @ c5) \<and>
      filter request (tr s') = filter request (tr s)
    else let new = listener (latest (Some l) c2) in pc = Returned E_OK \<and>
      tcpip_raw_pcb s' = latest new (c4 @ c5) \<and>
      filter request (tr s') = filter request (tr s) @ [Tcp_listen (latest (Some l) c2),
        Tcp_accept (latest new c4) (Some Fn_raw_accept)])"
proof (cases "c0 @ c1 = []")
  case True
  then show ?thesis
    using assms by (simp add: read_pcb_state_def call_ptr_def Let_def after_clients_def [of "[]"])
next
  case False
  from latest_client [OF False] obtain c where "latest (latest (Some l) c0) c1 = Some c" "c \<noteq> l"
    using assms(4) by (auto simp del: set_append)
  with False assms(1,3) show ?thesis by (auto simp: read_pcb_state_def latest_not_None)
qed

theorem listen_meets_clients_witness:
  "returns (conn_run meet_env (woven [[], [], [], [(8, ERR_OK)], [(9, ERR_OK)], []])
      (L_check, tcpip_init\<lparr>tcpip_raw_pcb := Some 1\<rparr>)) (\<lambda>(pc, s').
     pc = Returned E_OK \<and> tcpip_raw_pcb s' = Some 9 \<and>
     filter request (tr s') = [Tcp_listen (Some 1), Tcp_accept (Some 9) (Some Fn_raw_accept)])"
proof -
  let ?s = "tcpip_init\<lparr>tcpip_raw_pcb := Some 1\<rparr>"
  have l: "ans_ptr meet_env (t @ [Tcp_listen x]) = (if x = Some 1 then Some 6 else None)" for t x
    by (simp add: meet_env_def)
  have "pcb_state_at meet_env t 1 = Some 1" "c \<noteq> 1 \<Longrightarrow> pcb_state_at meet_env t c = Some 4" for t c
    by (simp_all add: meet_env_def)
  from listen_meets_clients [OF _ this _ l, of ?s "[]" "[]" "[]" "[(8, ERR_OK)]" "[(9, ERR_OK)]" "[]"]
  show ?thesis by (auto simp: tcpip_init_def elim!: returns_mono)
qed

end
