(* ===== verification/Rx_Lock.thy ===== *)
theory Rx_Lock
  imports Rx_Race
begin

text \<open>
  What a lock around the two calls of the receive control block would give. The sources take none;
  here a call starts only while the other side is idle, and everything else is as in
  \<open>Rx_Race\<close>. Then the interleavings are exactly the sequences of whole calls of
  \<open>Rx_Queue\<close>.
\<close>

subsection \<open>Schedules in which a call waits for the other side to return\<close>

fun may_start :: "move \<Rightarrow> race \<Rightarrow> bool" where
  "may_start (Call_push a) s \<longleftrightarrow> popper s = QIdle"
| "may_start Call_pop s \<longleftrightarrow> pusher s = PIdle"
| "may_start _ s \<longleftrightarrow> True"

inductive locked_step :: "race \<Rightarrow> move \<Rightarrow> race \<Rightarrow> bool" where
  locked_stepI: "may_start m s \<Longrightarrow> race_step s m s' \<Longrightarrow> locked_step s m s'"

inductive_cases locked_stepE: "locked_step s m s'"

lemma locked_moveI: "may_start m s \<Longrightarrow> race_move m s = Some (Inr s') \<Longrightarrow> locked_step s m s'"
  by (intro locked_stepI race_stepI)

text \<open>The shared variables once the call that is running has returned, and what it returns.\<close>

definition settle :: "race \<Rightarrow> (cptr \<times> rx_state) result option" where
  "settle s =
     (if popper s = QIdle
      then map_option (\<lambda>r. rbind r (\<lambda>t. Inr (None, t))) (push_exec 12 (pusher s) (shared s))
      else pop_exec 7 (popper s) (shared s))"

text \<open>
  A sequence of whole calls pushes \<open>g\<close> and returns \<open>k\<close>, answers of NULL left out, and
  leaves the control block in \<open>t\<close>.
\<close>

definition serial :: "nat list \<Rightarrow> nat list \<Rightarrow> rx_state \<Rightarrow> bool" where
  "serial g k t \<longleftrightarrow> (\<exists>ops out.
     box_run push_to_rx_ctrl_blk pop_pbuf_from_rx_ctrl_blk ops rx_init = Inr (out, t) \<and>
     puts ops = map Some g \<and> concat (map opt_list out) = k)"

definition locked_inv :: "race \<Rightarrow> bool" where
  "locked_inv s \<longleftrightarrow> (pusher s = PIdle \<or> popper s = QIdle) \<and>
     (\<exists>r t. settle s = Some (Inr (r, t)) \<and> serial (given s) (taken s @ opt_list r) t)"

lemma serial_init: "serial [] [] rx_init"
  unfolding serial_def by (intro exI [of _ "[]"]) simp

lemma serial_rx_inv: "serial g k t \<Longrightarrow> rx_inv t"
  by (auto simp: serial_def dest: ensuresD [OF returns_imp_ensures [OF rxq.run_refines [OF rx_inv_init]]])

lemma serial_push:
  assumes "serial g k t" and "push_to_rx_ctrl_blk (Some a) t = Inr t'"
  shows "serial (g @ [a]) k t'"
proof -
  from assms(1) obtain ops out where
    "box_run push_to_rx_ctrl_blk pop_pbuf_from_rx_ctrl_blk ops rx_init = Inr (out, t)"
    "puts ops = map Some g" "concat (map opt_list out) = k" by (auto simp: serial_def)
  with assms(2) show ?thesis
    unfolding serial_def by (intro exI [of _ "ops @ [Put (Some a)]"] exI [of _ out])
      (simp add: box_run_append)
qed

lemma serial_pop:
  assumes "serial g k t" and "pop_pbuf_from_rx_ctrl_blk t = Inr (r, t')"
  shows "serial g (k @ opt_list r) t'"
proof -
  from assms(1) obtain ops out where
    "box_run push_to_rx_ctrl_blk pop_pbuf_from_rx_ctrl_blk ops rx_init = Inr (out, t)"
    "puts ops = map Some g" "concat (map opt_list out) = k" by (auto simp: serial_def)
  with assms(2) show ?thesis
    unfolding serial_def by (intro exI [of _ "ops @ [Get]"] exI [of _ "out @ [r]"])
      (simp add: box_run_append)
qed

subsection \<open>Under the lock the calls are atomic\<close>

lemma push_exec_next:
  assumes "push_exec n pc s = Some (Inr t)" and "pc \<noteq> PIdle" and "push_next pc s = Inr (pc', s')"
  shows "push_exec n pc' s' = Some (Inr t)"
  using assms push_exec_Suc by (cases n) auto

lemma pop_exec_next:
  assumes "pop_exec n q s = Some (Inr r)" and "\<not> pop_done q" and "pop_next q s = Inr (q', s')"
  shows "pop_exec n q' s' = Some (Inr r)"
proof -
  from assms(2) have nd: "q \<noteq> QDone x" for x by (auto simp: pop_done_def)
  with assms(1) obtain k where n: "n = Suc k" by (cases n) (auto split: pop_pc.splits)
  with assms nd have "pop_exec k q' s' = Some (Inr r)" by (simp add: pop_exec_step [OF nd] del: pop_exec.simps)
  with n show ?thesis by (simp add: pop_exec_Suc del: pop_exec.simps)
qed

lemma pop_next_busy: "pop_next q s = Inr (q', s') \<Longrightarrow> q \<noteq> QIdle \<Longrightarrow> q' \<noteq> QIdle"
  by (cases q) (auto split: if_splits)

lemma settle_idle [simp]:
  "pusher s = PIdle \<Longrightarrow> popper s = QIdle \<Longrightarrow> settle s = Some (Inr (None, shared s))"
  by (simp add: settle_def eval_nat_numeral)

lemma locked_inv_idle:
  "pusher s = PIdle \<Longrightarrow> popper s = QIdle \<Longrightarrow>
     locked_inv s \<longleftrightarrow> serial (given s) (taken s) (shared s)"
  by (simp add: locked_inv_def)

lemma locked_inv_init: "locked_inv race_init"
  by (subst locked_inv_idle) (simp_all add: race_init_def serial_init)

lemma call_push_locked:
  assumes "serial (given s) (taken s) (shared s)" and "pusher s = PIdle" and "popper s = QIdle"
  shows "locked_inv (s\<lparr>pusher := PRead (Some a), given := given s @ [a]\<rparr>)"
proof -
  from assms(1) have inv: "rx_inv (shared s)" by (rule serial_rx_inv)
  from push_exec_eq [OF inv, of 0 "Some a"] push_eq [OF inv, of "Some a"] serial_push [OF assms(1)] assms(3)
  show ?thesis by (simp add: locked_inv_def settle_def del: push_exec.simps)
qed

lemma call_pop_locked:
  assumes "serial (given s) (taken s) (shared s)" and "pusher s = PIdle" and "popper s = QIdle"
  shows "locked_inv (s\<lparr>popper := QTest\<rparr>)"
proof -
  from pop_inv [OF serial_rx_inv [OF assms(1)]] obtain r t
    where "pop_pbuf_from_rx_ctrl_blk (shared s) = Inr (r, t)" by (auto simp: returns_iff)
  with pop_exec_eq [of 0 "shared s"] serial_pop [OF assms(1)] assms(2) show ?thesis
    by (simp add: locked_inv_def settle_def del: pop_exec.simps)
qed

lemma locked_step_keeps:
  assumes inv: "locked_inv s" and "locked_step s m s'"
  shows "locked_inv s'"
proof -
  from assms(2) have free: "may_start m s" and m: "race_move m s = Some (Inr s')"
    by (auto elim!: locked_stepE race_stepE)
  show ?thesis
  proof (cases m)
    case (Call_push a)
    with free m have "pusher s = PIdle" "popper s = QIdle"
      "s' = s\<lparr>pusher := PRead (Some a), given := given s @ [a]\<rparr>" by (auto split: if_splits)
    with inv call_push_locked show ?thesis by (simp add: locked_inv_idle)
  next
    case Call_pop
    with free m have "pusher s = PIdle" "popper s = QIdle" "s' = s\<lparr>popper := QTest\<rparr>"
      by (auto split: if_splits)
    with inv call_pop_locked show ?thesis by (simp add: locked_inv_idle)
  next
    case Push_moves
    with m obtain pc r where nx: "pusher s \<noteq> PIdle" "push_next (pusher s) (shared s) = Inr (pc, r)"
      "s' = s\<lparr>pusher := pc, shared := r\<rparr>" by (auto split: if_splits)
    with inv push_exec_next [OF _ nx(1,2)] show ?thesis
      by (auto simp: locked_inv_def settle_def simp del: push_exec.simps)
  next
    case Pop_moves
    with m obtain q r where nx: "\<not> pop_done (popper s)" "pop_next (popper s) (shared s) = Inr (q, r)"
      "s' = s\<lparr>popper := q, shared := r\<rparr>" by (auto split: if_splits)
    then have "popper s \<noteq> QIdle" by (auto simp: pop_done_def)
    with pop_next_busy [OF nx(2)] have "popper s \<noteq> QIdle" "q \<noteq> QIdle" by simp_all
    with nx inv pop_exec_next [OF _ nx(1,2)] show ?thesis
      by (auto simp: locked_inv_def settle_def simp del: pop_exec.simps)
  next
    case Pop_returns
    with m obtain r where "popper s = QDone r" "s' = s\<lparr>popper := QIdle, taken := taken s @ opt_list r\<rparr>"
      by (auto split: pop_pc.splits)
    with inv show ?thesis by (auto simp: locked_inv_def settle_def eval_nat_numeral)
  qed
qed

interpretation lk: step_invariant locked_step race_init locked_inv
  by unfold_locales (auto simp: locked_inv_init intro: locked_step_keeps)

subsection \<open>Every sequence of whole calls is such a schedule\<close>

lemma push_runs:
  "push_exec n (pusher s) (shared s) = Some (Inr t) \<Longrightarrow>
     reach locked_step s (s\<lparr>pusher := PIdle, shared := t\<rparr>)"
proof (induction n arbitrary: s)
  case 0
  then have "s\<lparr>pusher := PIdle, shared := t\<rparr> = s" by (simp split: if_splits)
  then show ?case by (simp add: reach_init)
next
  case (Suc n)
  show ?case
  proof (cases "pusher s = PIdle")
    case True
    with Suc.prems have "s\<lparr>pusher := PIdle, shared := t\<rparr> = s" by simp
    then show ?thesis by (simp add: reach_init)
  next
    case False
    with Suc.prems obtain pc r where nx: "push_next (pusher s) (shared s) = Inr (pc, r)"
      "push_exec n pc r = Some (Inr t)" by (auto split: sum.splits)
    with False have "locked_step s Push_moves (s\<lparr>pusher := pc, shared := r\<rparr>)"
      by (intro locked_moveI) auto
    then have "reach locked_step s (s\<lparr>pusher := pc, shared := r\<rparr>)" by (rule reach_one)
    moreover have "reach locked_step (s\<lparr>pusher := pc, shared := r\<rparr>) (s\<lparr>pusher := PIdle, shared := t\<rparr>)"
      using Suc.IH [of "s\<lparr>pusher := pc, shared := r\<rparr>"] nx(2) by simp
    ultimately show ?thesis by (blast intro: reach_trans)
  qed
qed

lemma pop_runs:
  "pop_exec n (popper s) (shared s) = Some (Inr (r, t)) \<Longrightarrow> popper s \<noteq> QIdle \<Longrightarrow>
     reach locked_step s (s\<lparr>popper := QDone r, shared := t\<rparr>)"
proof (induction n arbitrary: s)
  case 0
  then have "s\<lparr>popper := QDone r, shared := t\<rparr> = s" by (auto split: pop_pc.splits)
  then show ?case by (simp add: reach_init)
next
  case (Suc n)
  show ?case
  proof (cases "\<exists>x. popper s = QDone x")
    case True
    with Suc.prems have "s\<lparr>popper := QDone r, shared := t\<rparr> = s" by auto
    then show ?thesis by (simp add: reach_init)
  next
    case False
    with Suc.prems obtain q u where nx: "pop_next (popper s) (shared s) = Inr (q, u)"
      "pop_exec n q u = Some (Inr (r, t))"
      by (auto simp: pop_exec_step simp del: pop_exec.simps split: sum.splits)
    from False Suc.prems(2) have "\<not> pop_done (popper s)" by (auto simp: pop_done_def split: pop_pc.splits)
    with nx have "locked_step s Pop_moves (s\<lparr>popper := q, shared := u\<rparr>)"
      by (intro locked_moveI) auto
    then have "reach locked_step s (s\<lparr>popper := q, shared := u\<rparr>)" by (rule reach_one)
    moreover have "reach locked_step (s\<lparr>popper := q, shared := u\<rparr>) (s\<lparr>popper := QDone r, shared := t\<rparr>)"
      using Suc.IH [of "s\<lparr>popper := q, shared := u\<rparr>"] nx pop_next_busy [OF nx(1) Suc.prems(2)] by simp
    ultimately show ?thesis by (blast intro: reach_trans)
  qed
qed

lemma push_whole:
  assumes "rx_inv (shared s)" and "pusher s = PIdle" and "popper s = QIdle"
    and "push_to_rx_ctrl_blk (Some a) (shared s) = Inr t"
  shows "reach locked_step s (s\<lparr>shared := t, given := given s @ [a]\<rparr>)"
proof -
  let ?s = "s\<lparr>pusher := PRead (Some a), given := given s @ [a]\<rparr>"
  from assms(2,3) have "locked_step s (Call_push a) ?s" by (intro locked_moveI) auto
  then have "reach locked_step s ?s" by (rule reach_one)
  moreover have "push_exec 12 (pusher ?s) (shared ?s) = Some (Inr t)"
    using push_exec_eq [OF assms(1), of 0 "Some a"] assms(4) by simp
  then have "reach locked_step ?s (?s\<lparr>pusher := PIdle, shared := t\<rparr>)" by (rule push_runs)
  moreover from assms(2) have "?s\<lparr>pusher := PIdle, shared := t\<rparr> = s\<lparr>shared := t, given := given s @ [a]\<rparr>"
    by simp
  ultimately show ?thesis by (simp add: reach_trans)
qed

lemma pop_whole:
  assumes "pusher s = PIdle" and "popper s = QIdle"
    and "pop_pbuf_from_rx_ctrl_blk (shared s) = Inr (r, t)"
  shows "reach locked_step s (s\<lparr>shared := t, taken := taken s @ opt_list r\<rparr>)"
proof -
  let ?s = "s\<lparr>popper := QTest\<rparr>" and ?t = "s\<lparr>popper := QDone r, shared := t\<rparr>"
  from assms(1,2) have "locked_step s Call_pop ?s" by (intro locked_moveI) auto
  then have "reach locked_step s ?s" by (rule reach_one)
  moreover have "pop_exec 7 (popper ?s) (shared ?s) = Some (Inr (r, t))"
    using pop_exec_eq [of 0 "shared s"] assms(3) by simp
  then have "reach locked_step ?s ?t" using pop_runs [of 7 ?s r t] by simp
  moreover have "locked_step ?t Pop_returns (s\<lparr>shared := t, taken := taken s @ opt_list r\<rparr>)"
    using assms(2) by (intro locked_moveI) auto
  ultimately show ?thesis by (blast intro: reach_trans reach_step)
qed

lemma calls_run_locked:
  assumes "pusher s = PIdle" and "popper s = QIdle" and "rx_inv (shared s)"
    and "box_run push_to_rx_ctrl_blk pop_pbuf_from_rx_ctrl_blk ops (shared s) = Inr (out, t)"
    and "puts ops = map Some g"
  shows "reach locked_step s
    (s\<lparr>shared := t, given := given s @ g, taken := taken s @ concat (map opt_list out)\<rparr>)"
  using assms
proof (induction ops arbitrary: s out g)
  case Nil
  then have "out = []" "t = shared s" "g = []" by auto
  then show ?case by (simp add: reach_init)
next
  case (Cons op ops)
  show ?case
  proof (cases op)
    case (Put m)
    with Cons.prems(5) obtain a h where g: "m = Some a" "g = a # h" "puts ops = map Some h"
      by (cases g) auto
    from Put Cons.prems(4) g obtain u where u: "push_to_rx_ctrl_blk (Some a) (shared s) = Inr u"
      "box_run push_to_rx_ctrl_blk pop_pbuf_from_rx_ctrl_blk ops u = Inr (out, t)" by auto
    have "rx_inv u" using u(1) push_value_inv [OF Cons.prems(3), of "Some a"] by (simp add: push_eq [OF Cons.prems(3)])
    with Cons.IH [of "s\<lparr>shared := u, given := given s @ [a]\<rparr>" out h] Cons.prems(1,2) u g
      push_whole [OF Cons.prems(3,1,2) u(1)] show ?thesis by (auto intro: reach_trans)
  next
    case Get
    with Cons.prems(4) obtain r u out' where u: "pop_pbuf_from_rx_ctrl_blk (shared s) = Inr (r, u)"
      "box_run push_to_rx_ctrl_blk pop_pbuf_from_rx_ctrl_blk ops u = Inr (out', t)" "out = r # out'" by auto
    have "rx_inv u" using u(1) pop_inv [OF Cons.prems(3)] by simp
    with Cons.IH [of "s\<lparr>shared := u, taken := taken s @ opt_list r\<rparr>" out' g] Cons.prems Get u
      pop_whole [OF Cons.prems(1,2) u(1)] show ?thesis by (auto intro: reach_trans)
  qed
qed

subsection \<open>Properties\<close>

text \<open>C6: with a lock the race is gone. If a push or a pop starts only while the other side is idle,
  the states in which both have returned are, with the packets given and received, exactly those
  that sequences of whole calls lead to: the schedules of single accesses and the calls of the
  sources as functions have the same results, in both directions.\<close>
theorem locked_schedules_are_call_sequences:
  "(\<exists>s. reach locked_step race_init s \<and> pusher s = PIdle \<and> popper s = QIdle \<and>
      shared s = t \<and> given s = g \<and> taken s = k) \<longleftrightarrow>
   (\<exists>ops out. box_run push_to_rx_ctrl_blk pop_pbuf_from_rx_ctrl_blk ops rx_init = Inr (out, t) \<and>
      puts ops = map Some g \<and> concat (map opt_list out) = k)"
proof
  assume "\<exists>s. reach locked_step race_init s \<and> pusher s = PIdle \<and> popper s = QIdle \<and>
      shared s = t \<and> given s = g \<and> taken s = k"
  then have "serial g k t" using lk.reach_inv locked_inv_idle by blast
  then show "\<exists>ops out. box_run push_to_rx_ctrl_blk pop_pbuf_from_rx_ctrl_blk ops rx_init = Inr (out, t) \<and>
      puts ops = map Some g \<and> concat (map opt_list out) = k" by (simp add: serial_def)
next
  assume "\<exists>ops out. box_run push_to_rx_ctrl_blk pop_pbuf_from_rx_ctrl_blk ops rx_init = Inr (out, t) \<and>
      puts ops = map Some g \<and> concat (map opt_list out) = k"
  with calls_run_locked [of race_init] show "\<exists>s. reach locked_step race_init s \<and> pusher s = PIdle \<and>
      popper s = QIdle \<and> shared s = t \<and> given s = g \<and> taken s = k"
    by (fastforce simp: race_init_def rx_inv_init)
qed

end
