(* ===== verification/Race_Losses.thy ===== *)
theory Race_Losses
  imports Rx_Lock
begin

text \<open>
  What unlocked interleavings of \<open>Rx_Race\<close> lose for good: slots of the pool that no call
  reaches again, and increments and decrements of the 16-bit counter.
\<close>

lemma locked_reach_race: "reach locked_step s s' \<Longrightarrow> reach race_step s s'"
  by (induction rule: reach.induct) (auto intro: reach_init reach_step elim!: locked_stepE)

subsection \<open>Slots lost to every later call\<close>

text \<open>
  The node each side has acquired or is about to free, outside the list; a slot in use that is
  neither this nor the head is lost.
\<close>

fun push_holds :: "push_pc \<Rightarrow> mpool_ptr" where
  "push_holds (PLoadCnt m l p) = p"
| "push_holds (PStoreCnt m l p c) = p"
| "push_holds (PData m l p) = p"
| "push_holds (PLink m l p) = p"
| "push_holds _ = NullNode"

definition lost :: "race \<Rightarrow> nat set" where
  "lost s = {i \<in> owned (pool_of s).
     Node (int i) \<notin> {rx_head (shared s), push_holds (pusher s), pop_holds (popper s)}}"

lemma lost_push_moves:
  assumes inv: "race_inv s" and nx: "push_next (pusher s) (shared s) = Inr (pc, r)"
  shows "lost s \<subseteq> lost (s\<lparr>pusher := pc, shared := r\<rparr>)"
proof -
  from inv have ok: "shared_ok (shared s) (pusher s) (popper s)" by (simp add: race_inv_def)
  then have len: "length (pool_of s) = TCPIP_MEM_POOL_SIZE" by (simp add: shared_ok_def pool_wf_length)
  show ?thesis
  proof (cases "pusher s")
    case (PTake m l i)
    with ok nx len show ?thesis
      by (auto simp: lost_def owned_def nth_list_update ok_defs split: if_splits)
  next
    case (PData m l p)
    with ok nx len show ?thesis
      by (auto simp: lost_def owned_def nth_list_update ok_defs)
  next
    case (PLink m l p)
    with ok nx len show ?thesis
      by (auto simp: lost_def ok_defs split: if_splits)
  next
    case (PWalk q)
    with ok nx len show ?thesis by (auto simp: lost_def ok_defs split: if_splits)
  qed (use nx in \<open>auto simp: lost_def split: if_splits\<close>)
qed

lemma lost_pop_moves:
  assumes inv: "race_inv s" and nx: "pop_next (popper s) (shared s) = Inr (q, r)"
  shows "lost s \<subseteq> lost (s\<lparr>popper := q, shared := r\<rparr>)"
proof -
  from inv have ok: "shared_ok (shared s) (pusher s) (popper s)" by (simp add: race_inv_def)
  then have wf: "pool_wf (pool_of s)" by (simp add: shared_ok_def)
  note len = pool_wf_length [OF wf] and nth = pool_wf_nth [OF wf]
  show ?thesis
  proof (cases "popper s")
    case (QNext h m)
    with ok nx len nth show ?thesis by (auto simp: lost_def ok_defs)
  next
    case (QFree h m)
    with ok nx len show ?thesis
      by (auto simp: lost_def owned_def ok_defs free_tcpip_mpool_def in_mpool_range_def nth_list_update)
  qed (use nx in \<open>auto simp: lost_def split: if_splits\<close>)
qed

lemma lost_grows:
  assumes inv: "race_inv s" and "race_step s m s'"
  shows "lost s \<subseteq> lost s'"
proof -
  from assms(2) have m: "race_move m s = Some (Inr s')" by (auto elim: race_stepE)
  show ?thesis
  proof (cases m)
    case (Call_push a)
    with m show ?thesis by (auto simp: lost_def split: if_splits)
  next
    case Push_moves
    with m lost_push_moves [OF inv] show ?thesis by (auto split: if_splits)
  next
    case Call_pop
    with m show ?thesis by (auto simp: lost_def split: if_splits)
  next
    case Pop_moves
    with m lost_pop_moves [OF inv] show ?thesis by (auto split: if_splits)
  next
    case Pop_returns
    with m show ?thesis by (auto simp: lost_def split: pop_pc.splits)
  qed
qed

lemma lost_bound: "race_inv s \<Longrightarrow> lost s \<subseteq> {..<TCPIP_MEM_POOL_SIZE}"
  by (auto simp: lost_def race_inv_def shared_ok_def owned_def pool_wf_length)

lemma lost_card_grows: "race_inv s \<Longrightarrow> race_step s m s' \<Longrightarrow> card (lost s) \<le> card (lost s')"
  using finite_subset [OF lost_bound, of s'] race_step_keeps [of s m s'] lost_grows [of s m s']
  by (simp add: card_mono)

interpretation rcl: monotone_measure race_step race_init race_inv "\<lambda>s. card (lost s)"
  by unfold_locales (rule lost_card_grows)

text \<open>Five pushes fill the pool: one packet waits, four slots are lost.\<close>

definition filled :: "nat \<Rightarrow> nat \<Rightarrow> nat \<Rightarrow> nat \<Rightarrow> nat \<Rightarrow> rx_state" where
  "filled a b c d e = \<lparr>TcpIp_MemPool =
       map (\<lambda>x. \<lparr>mp_next = NullNode, mp_pbuf = Some x, mp_state = MPOOL_ACQUIRED\<rparr>) [a, b, c, d, e],
     TcpIp_Rx_CtrlBlk = \<lparr>rx_buf_cnt = 5, rx_bufhead = Node 0\<rparr>\<rparr>"

lemma fill_run:
  "box_run push_to_rx_ctrl_blk pop_pbuf_from_rx_ctrl_blk
     [Put (Some a), Put (Some b), Put (Some c), Put (Some d), Put (Some e)] rx_init =
   Inr ([], filled a b c d e)"
  by (simp add: push_to_rx_ctrl_blk_def get_new_tcpip_mpool_def get_new_loop.simps walk_to_end.simps
      rx_init_def TcpIp_MemPool_init_def TCPIP_MEM_POOL_SIZE_def load_node_def store_node_def
      eval_nat_numeral Let_def filled_def)

lemma fill_reach:
  "reach race_step race_init
     (race_init\<lparr>shared := filled a b c d e, given := [a, b, c, d, e]\<rparr>)"
proof -
  have "reach locked_step race_init (race_init\<lparr>shared := filled a b c d e,
      given := given race_init @ [a, b, c, d, e], taken := taken race_init @ concat (map opt_list [])\<rparr>)"
    by (rule calls_run_locked [where ops = "[Put (Some a), Put (Some b), Put (Some c), Put (Some d),
          Put (Some e)]"])
       (use fill_run [of a b c d e] in \<open>simp_all add: race_init_def rx_inv_init\<close>)
  then show ?thesis using locked_reach_race by (simp add: race_init_def)
qed

text \<open>A push that has seen the waiting packet, a whole pop, and the rest of the push.\<close>

definition exhausting :: "nat \<Rightarrow> move list" where
  "exhausting f = [Call_push f, Push_moves, Call_pop] @ replicate 7 Pop_moves @ [Pop_returns] @
     replicate 7 Push_moves"

lemma replicate_7: "replicate 7 x = [x, x, x, x, x, x, x]"
  by (simp add: eval_nat_numeral)

lemma exhausting_run:
  "race_run (exhausting f) (race_init\<lparr>shared := filled a b c d e, given := [a, b, c, d, e]\<rparr>) =
   Some (Inr (race_init\<lparr>shared := (filled f b c d e)\<lparr>TcpIp_Rx_CtrlBlk :=
       \<lparr>rx_buf_cnt = 5, rx_bufhead = NullNode\<rparr>\<rparr>, given := [a, b, c, d, e, f], taken := [a]\<rparr>))"
  by (simp add: exhausting_def race_init_def filled_def TCPIP_MEM_POOL_SIZE_def pop_done_def
      replicate_7 load_node_def store_node_def free_tcpip_mpool_def in_mpool_range_def)

text \<open>With every slot lost, nothing is ever received again.\<close>

definition exhausted :: "race \<Rightarrow> bool" where
  "exhausted s \<longleftrightarrow> race_inv s \<and> lost s = {..<TCPIP_MEM_POOL_SIZE} \<and> in_hand (popper s) = None"

lemma exhausted_no_head:
  assumes "exhausted s"
  shows "rx_head (shared s) = NullNode"
proof (rule ccontr)
  assume "rx_head (shared s) \<noteq> NullNode"
  with assms obtain i where i: "i < TCPIP_MEM_POOL_SIZE" "rx_head (shared s) = Node (int i)"
    by (auto simp: exhausted_def race_inv_def shared_ok_def node_used_def)
  with assms have "i \<in> lost s" by (simp add: exhausted_def)
  with i(2) show False by (simp add: lost_def)
qed

lemma exhausted_step:
  assumes "exhausted s" and "race_step s m s'"
  shows "exhausted s' \<and> taken s' = taken s"
proof -
  from assms(1) have inv: "race_inv s" and all: "lost s = {..<TCPIP_MEM_POOL_SIZE}"
    and hand: "in_hand (popper s) = None" by (simp_all add: exhausted_def)
  from assms(2) have m: "race_move m s = Some (Inr s')" by (auto elim: race_stepE)
  from inv have ok: "pop_ok (shared s) (popper s)" by (simp add: race_inv_def shared_ok_def)
  have inv': "race_inv s'" using inv assms(2) by (rule race_step_keeps)
  moreover from lost_grows [OF inv assms(2)] lost_bound [OF inv'] all
  have "lost s' = {..<TCPIP_MEM_POOL_SIZE}" by blast
  moreover have "in_hand (popper s') = None \<and> taken s' = taken s"
  proof (cases m)
    case Pop_moves
    with m obtain q r where nx: "\<not> pop_done (popper s)" "pop_next (popper s) (shared s) = Inr (q, r)"
      "s' = s\<lparr>popper := q, shared := r\<rparr>" by (auto split: if_splits)
    with ok hand exhausted_no_head [OF assms(1)] show ?thesis
      by (cases "popper s") (auto simp: pop_done_def split: if_splits)
  next
    case Pop_returns
    with m hand show ?thesis by (auto split: pop_pc.splits)
  qed (use m hand in \<open>auto split: if_splits\<close>)
  ultimately show ?thesis by (simp add: exhausted_def)
qed

lemma exhausted_reach:
  "reach race_step s s' \<Longrightarrow> exhausted s \<Longrightarrow> exhausted s' \<and> taken s' = taken s"
  by (induction rule: reach.induct) (auto dest: exhausted_step)

text \<open>C9: without a lock the pool can be used up for good, which whole calls cannot do (they lose
  at most four slots). After five pushes and a pop that runs inside a sixth push, all calls have
  returned, the list is empty and every slot is marked as acquired; from then on, whatever the
  two sides call and however they are scheduled, the application never receives a packet again.\<close>
theorem race_exhausts_pool:
  "\<exists>s. reach race_step race_init s \<and> pusher s = PIdle \<and> popper s = QIdle \<and>
     given s = [a, b, c, d, e, f] \<and> taken s = [a] \<and> rx_content (shared s) = None \<and>
     owned (TcpIp_MemPool (shared s)) = {..<5} \<and>
     {s'. reach race_step s s'} \<subseteq> {s'. taken s' = [a] \<and> owned (TcpIp_MemPool (shared s')) = {..<5}}"
proof -
  let ?s = "race_init\<lparr>shared := (filled f b c d e)\<lparr>TcpIp_Rx_CtrlBlk :=
      \<lparr>rx_buf_cnt = 5, rx_bufhead = NullNode\<rparr>\<rparr>, given := [a, b, c, d, e, f], taken := [a]\<rparr>"
  have reach: "reach race_step race_init ?s"
    using fill_reach race_run_reach [OF exhausting_run] by (rule reach_trans [rotated])
  have owned: "owned (pool_of ?s) = {..<5}"
    by (auto simp: owned_def filled_def less_Suc_eq eval_nat_numeral)
  with rc.reach_inv [OF reach] have "exhausted ?s"
    by (auto simp: exhausted_def lost_def race_init_def TCPIP_MEM_POOL_SIZE_def)
  then have "taken s' = [a] \<and> owned (pool_of s') = {..<5}" if "reach race_step ?s s'" for s'
    using exhausted_reach [OF that] lost_bound [of s']
    by (auto simp: exhausted_def lost_def TCPIP_MEM_POOL_SIZE_def owned_def race_inv_def shared_ok_def pool_wf_length)
  with reach owned show ?thesis
    by (intro exI [of _ ?s]) (auto simp: race_init_def rx_content_def)
qed

subsection \<open>Increments and decrements lost\<close>

text \<open>
  One round: a push, a pop up to the read of the counter, a second push up to the write of the
  counter, the rest of the pop, the rest of the push, and a pop for the second packet. The write of
  the pop is lost.
\<close>

definition overlapping :: "nat \<Rightarrow> nat \<Rightarrow> move list" where
  "overlapping a b = [Call_push a] @ replicate 7 Push_moves @
     [Call_pop, Pop_moves, Pop_moves, Pop_moves, Pop_moves, Pop_moves,
      Call_push b, Push_moves, Push_moves, Push_moves, Push_moves,
      Pop_moves, Pop_moves, Pop_returns, Push_moves, Push_moves, Push_moves]"

definition reading :: "move list" where
  "reading = [Call_pop] @ replicate 7 Pop_moves @ [Pop_returns]"

definition drift_round :: "nat \<Rightarrow> nat \<Rightarrow> move list" where
  "drift_round a b = overlapping a b @ reading"

definition drifted :: "cptr \<Rightarrow> u16 \<Rightarrow> rx_state" where
  "drifted p c = \<lparr>TcpIp_MemPool = TcpIp_MemPool_init[0 := (TcpIp_MemPool_init ! 0)\<lparr>mp_pbuf := p\<rparr>],
     TcpIp_Rx_CtrlBlk = \<lparr>rx_buf_cnt = c, rx_bufhead = NullNode\<rparr>\<rparr>"

definition overlapped :: "nat \<Rightarrow> u16 \<Rightarrow> rx_state" where
  "overlapped b c = \<lparr>TcpIp_MemPool = TcpIp_MemPool_init
       [0 := (TcpIp_MemPool_init ! 0)\<lparr>mp_pbuf := Some b, mp_state := MPOOL_ACQUIRED\<rparr>],
     TcpIp_Rx_CtrlBlk = \<lparr>rx_buf_cnt = c, rx_bufhead = Node 0\<rparr>\<rparr>"

lemma race_run_append:
  "race_run (xs @ ys) s = (case race_run xs s of Some (Inr t) \<Rightarrow> race_run ys t | r \<Rightarrow> r)"
  by (induction xs arbitrary: s) (auto split: option.splits sum.splits)

lemma overlapping_run:
  "c + 1 \<noteq> 0 \<Longrightarrow>
   race_run (overlapping a b) \<lparr>shared = drifted p c, pusher = PIdle, popper = QIdle, given = g, taken = k\<rparr> =
   Some (Inr \<lparr>shared = overlapped b (c + 2), pusher = PIdle, popper = QIdle, given = g @ [a, b], taken = k @ [a]\<rparr>)"
  by (simp add: overlapping_def drifted_def overlapped_def TcpIp_MemPool_init_def TCPIP_MEM_POOL_SIZE_def
      pop_done_def replicate_7 load_node_def store_node_def free_tcpip_mpool_def in_mpool_range_def)

lemma reading_run:
  "c \<noteq> 0 \<Longrightarrow>
   race_run reading \<lparr>shared = overlapped b c, pusher = PIdle, popper = QIdle, given = g, taken = k\<rparr> =
   Some (Inr \<lparr>shared = drifted (Some b) (c - 1), pusher = PIdle, popper = QIdle, given = g, taken = k @ [b]\<rparr>)"
  by (simp add: reading_def drifted_def overlapped_def TcpIp_MemPool_init_def TCPIP_MEM_POOL_SIZE_def
      pop_done_def replicate_7 load_node_def store_node_def free_tcpip_mpool_def in_mpool_range_def)

lemma drift_rounds:
  "unat c + n \<le> 65534 \<Longrightarrow> \<exists>p'.
   race_run (concat (replicate n (drift_round a b)))
     \<lparr>shared = drifted p c, pusher = PIdle, popper = QIdle, given = g, taken = g\<rparr> =
   Some (Inr \<lparr>shared = drifted p' (c + of_nat n), pusher = PIdle, popper = QIdle,
     given = g @ concat (replicate n [a, b]), taken = g @ concat (replicate n [a, b])\<rparr>)"
proof (induction n arbitrary: c p g)
  case 0
  then show ?case by auto
next
  case (Suc n)
  then have c1: "unat (c + 1) = unat c + 1" by (simp add: unat_inc16)
  with Suc.prems have "unat (c + 1 + 1) = unat c + 2" by (simp only: unat_inc16)
  then have "unat (c + 2) = unat c + 2" by (simp add: add.assoc)
  with c1 have nz: "c + 1 \<noteq> 0" "c + 2 \<noteq> 0" "c + 2 - 1 = c + 1" by auto
  from nz have round: "race_run (drift_round a b)
      \<lparr>shared = drifted p c, pusher = PIdle, popper = QIdle, given = g, taken = g\<rparr> =
      Some (Inr \<lparr>shared = drifted (Some b) (c + 1), pusher = PIdle, popper = QIdle,
        given = g @ [a, b], taken = g @ [a, b]\<rparr>)"
    by (simp add: drift_round_def race_run_append overlapping_run reading_run add.commute)
  from Suc.IH [of "c + 1" "Some b" "g @ [a, b]"] Suc.prems c1 show ?case
    by (simp add: race_run_append round add.assoc)
qed

lemma race_init_drifted:
  "race_init = \<lparr>shared = drifted None 0, pusher = PIdle, popper = QIdle, given = [], taken = []\<rparr>"
  by (simp add: race_init_def rx_init_def drifted_def TcpIp_MemPool_init_def TCPIP_MEM_POOL_SIZE_def
      eval_nat_numeral)

text \<open>C10: without a lock the 16-bit counter, which whole calls keep at five or less, can drift up
  without bound and wrap. A round in which a push overlaps the end of a pop delivers its two packets
  and leaves the list empty, but the counter one too high: after \<open>n\<close> rounds it is \<open>n\<close>.
  After 65534 rounds it reaches zero in the middle of the next one, while a packet is in the list,
  and no read finds the packet.\<close>
theorem counter_drift_wraps:
  assumes "n \<le> 65534"
  shows "(\<exists>s. race_run (concat (replicate n (drift_round a b))) race_init = Some (Inr s) \<and>
      pusher s = PIdle \<and> popper s = QIdle \<and> given s = concat (replicate n [a, b]) \<and> taken s = given s \<and>
      rx_content (shared s) = None \<and> unat (rx_buf_cnt (TcpIp_Rx_CtrlBlk (shared s))) = n) \<and>
    (\<exists>s. race_run (concat (replicate 65534 (drift_round a b)) @ overlapping a b) race_init = Some (Inr s) \<and>
      pusher s = PIdle \<and> popper s = QIdle \<and> given s = taken s @ [b] \<and>
      rx_content (shared s) = Some (Some b) \<and> rx_buf_cnt (TcpIp_Rx_CtrlBlk (shared s)) = 0 \<and>
      (\<forall>m. box_run push_to_rx_ctrl_blk pop_pbuf_from_rx_ctrl_blk (replicate m Get) (shared s) =
         Inr (replicate m None, shared s)))"
proof (intro conjI)
  have n: "unat (of_nat n :: u16) = n" using assms by (simp add: unat_of_nat)
  from drift_rounds [of 0 n a b None "[]"] assms n
  show "\<exists>s. race_run (concat (replicate n (drift_round a b))) race_init = Some (Inr s) \<and>
      pusher s = PIdle \<and> popper s = QIdle \<and> given s = concat (replicate n [a, b]) \<and> taken s = given s \<and>
      rx_content (shared s) = None \<and> unat (rx_buf_cnt (TcpIp_Rx_CtrlBlk (shared s))) = n"
    by (auto simp: race_init_drifted drifted_def rx_content_def)
next
  obtain p g where run: "race_run (concat (replicate 65534 (drift_round a b))) race_init =
      Some (Inr \<lparr>shared = drifted p 65534, pusher = PIdle, popper = QIdle, given = g, taken = g\<rparr>)"
    using drift_rounds [of 0 65534 a b None "[]"] by (auto simp: race_init_drifted)
  let ?s = "\<lparr>shared = overlapped b 0, pusher = PIdle, popper = QIdle, given = g @ [a, b], taken = g @ [a]\<rparr>"
  have "(65534 + 2 :: u16) = 0" by simp
  with overlapping_run [of 65534 a b p g g] have "race_run (overlapping a b)
      \<lparr>shared = drifted p 65534, pusher = PIdle, popper = QIdle, given = g, taken = g\<rparr> = Some (Inr ?s)"
    by (simp only:) simp
  with run have "race_run (concat (replicate 65534 (drift_round a b)) @ overlapping a b) race_init =
      Some (Inr ?s)" by (simp add: race_run_append)
  moreover have "rx_content (overlapped b 0) = Some (Some b)" "rx_cnt (overlapped b 0) = 0"
    by (simp_all add: overlapped_def rx_content_def TcpIp_MemPool_init_def TCPIP_MEM_POOL_SIZE_def)
  ultimately show "\<exists>s. race_run (concat (replicate 65534 (drift_round a b)) @ overlapping a b) race_init =
      Some (Inr s) \<and> pusher s = PIdle \<and> popper s = QIdle \<and> given s = taken s @ [b] \<and>
      rx_content (shared s) = Some (Some b) \<and> rx_buf_cnt (TcpIp_Rx_CtrlBlk (shared s)) = 0 \<and>
      (\<forall>m. box_run push_to_rx_ctrl_blk pop_pbuf_from_rx_ctrl_blk (replicate m Get) (shared s) =
         Inr (replicate m None, shared s))"
    by (intro exI [of _ ?s]) (simp add: blind_reads)
qed

theorem counter_drift_wraps_witness:
  "\<exists>s. race_run (concat (replicate 30 (drift_round 7 8))) race_init = Some (Inr s) \<and>
     rx_content (shared s) = None \<and> unat (rx_buf_cnt (TcpIp_Rx_CtrlBlk (shared s))) = 30"
  using counter_drift_wraps [of 30 7 8] by auto

end
