(* ===== verification/Service.thy ===== *)
theory Service
  imports System
begin

text \<open>
  What one call of the periodic function costs and guarantees when lwIP calls back while it
  runs: the accounting of packets over a batch of callbacks of any length and kind (given back
  exactly once, acknowledged, queued), and that the function always comes back, having polled
  the driver and run the timers once, however often it is called.
\<close>

subsection \<open>Batches of callbacks\<close>

text \<open>The packets a callback hands over, those that carry data, and those to be sent.\<close>

fun cb_received :: "callback \<Rightarrow> nat list" where
  "cb_received (Cb_recv tpcb p err) = opt_list p"
| "cb_received _ = []"

fun cb_data :: "callback \<Rightarrow> nat list" where
  "cb_data (Cb_recv tpcb p err) = (if err = ERR_OK then opt_list p else [])"
| "cb_data _ = []"

fun cb_output :: "callback \<Rightarrow> cptr list" where
  "cb_output (Cb_linkoutput i p) = [p]"
| "cb_output _ = []"

text \<open>
  What lwIP promises of a batch: no packet is handed over twice in it, a packet handed over is
  not one that is being sent, and a packet stays readable until it is given back.
\<close>

definition lasting :: "lwip_env \<Rightarrow> trace \<Rightarrow> nat \<Rightarrow> bool" where
  "lasting env t a \<longleftrightarrow> (\<forall>es. Pbuf_free (Some a) \<notin> set es \<longrightarrow>
     (\<exists>b. pbuf_at env (t @ es) a = Some b \<and> unat (pb_len b) \<le> length (pb_payload b)))"

definition batch_ok :: "lwip_env \<Rightarrow> trace \<Rightarrow> callback list \<Rightarrow> bool" where
  "batch_ok env t cbs \<longleftrightarrow>
     distinct (concat (map cb_received cbs)) \<and>
     (\<forall>a \<in> set (concat (map cb_data cbs)). lasting env t a) \<and>
     (\<forall>p \<in> set (concat (map cb_output cbs)).
        \<exists>a. p = Some a \<and> a \<notin> set (concat (map cb_received cbs)) \<and> lasting env t a)"

lemma lasting_append:
  "lasting env t a \<Longrightarrow> Pbuf_free (Some a) \<notin> set es \<Longrightarrow> lasting env (t @ es) a"
  unfolding lasting_def by (metis append.assoc set_append Un_iff)

lemma lasting_now: "lasting env t a \<Longrightarrow> \<exists>b. pbuf_at env t a = Some b \<and> unat (pb_len b) \<le> length (pb_payload b)"
  unfolding lasting_def by (metis append_Nil2 empty_iff empty_set)

lemma cb_data_received: "set (cb_data cb) \<subseteq> set (cb_received cb)"
  by (cases cb) auto

lemma batch_ok_tail:
  assumes "batch_ok env t (cb # cbs)" and "\<And>a. Pbuf_free (Some a) \<in> set es \<Longrightarrow> a \<in> set (cb_received cb)"
  shows "batch_ok env (t @ es) cbs"
proof -
  have data: "a \<in> set (concat (map cb_received cbs))" if "a \<in> set (concat (map cb_data cbs))" for a
    using that cb_data_received by fastforce
  have last: "lasting env (t @ es) a" if "lasting env t a" "a \<notin> set (cb_received cb)" for a
    using assms(2) that by (blast intro: lasting_append)
  from assms(1) have d: "distinct (concat (map cb_received cbs))"
    "set (cb_received cb) \<inter> set (concat (map cb_received cbs)) = {}"
    by (simp_all add: batch_ok_def)
  from assms(1) have l: "\<forall>a \<in> set (concat (map cb_data cbs)). lasting env t a"
    "\<forall>p \<in> set (concat (map cb_output cbs)). \<exists>a. p = Some a \<and>
       a \<notin> set (cb_received cb) \<and> a \<notin> set (concat (map cb_received cbs)) \<and> lasting env t a"
    by (simp_all add: batch_ok_def)
  have "\<forall>a \<in> set (concat (map cb_data cbs)). lasting env (t @ es) a"
    using l(1) d(2) data last by blast
  moreover have "\<forall>p \<in> set (concat (map cb_output cbs)). \<exists>a. p = Some a \<and>
      a \<notin> set (concat (map cb_received cbs)) \<and> lasting env (t @ es) a"
    using l(2) last by blast
  ultimately show ?thesis using d(1) by (simp add: batch_ok_def)
qed

text \<open>
  The account of a run of callbacks: packets given back, and no poll of the driver or timer run
  of its own.
\<close>

definition ledger :: "event list \<Rightarrow> callback list \<Rightarrow> bool" where
  "ledger es cbs \<longleftrightarrow>
     (\<forall>a. count_list es (Pbuf_free (Some a)) = count_list (concat (map cb_received cbs)) a) \<and>
     Sys_check_timeouts \<notin> set es \<and> (\<forall>n. Macphy_pkt_recv n \<notin> set es)"

lemma ledger_Nil: "ledger [] []"
  by (simp add: ledger_def)

lemma ledger_Cons: "ledger es [cb] \<Longrightarrow> ledger fs cbs \<Longrightarrow> ledger (es @ fs) (cb # cbs)"
  by (auto simp: ledger_def)

lemma ledger_frees: "ledger es [cb] \<Longrightarrow> Pbuf_free (Some a) \<in> set es \<Longrightarrow> a \<in> set (cb_received cb)"
  by (metis ledger_def count_list_0_iff append_Nil2 concat.simps list.simps(8,9))

lemma count_distinct: "distinct xs \<Longrightarrow> count_list xs a = (if a \<in> set xs then 1 else 0)"
  by (induction xs) auto

text \<open>The queue after messages arrive: the first stays.\<close>

definition first_of :: "cptr option \<Rightarrow> nat list \<Rightarrow> cptr option" where
  "first_of c as = (case c of Some m \<Rightarrow> Some m | None \<Rightarrow> (case as of [] \<Rightarrow> None | a # _ \<Rightarrow> Some (Some a)))"

lemma first_of_Nil [simp]: "first_of c [] = c"
  by (simp add: first_of_def split: option.split)

lemma first_of_append [simp]: "first_of (first_of c as) bs = first_of c (as @ bs)"
  by (simp add: first_of_def split: option.split list.split)

text \<open>
  The calls one callback makes when the trace is \<open>t\<close>: an acknowledgement of the packet's whole
  length to its connection and the release of the packet; its release and the close of the
  connection after the callbacks are removed; the set-up of an accepted connection; the first
  segment of a packet to the driver. What is read of a packet is what its memory holds at that
  moment.
\<close>

fun cb_events :: "lwip_env \<Rightarrow> trace \<Rightarrow> callback \<Rightarrow> event list" where
  "cb_events env t (Cb_recv tpcb p err) =
     (case p of
        Some a \<Rightarrow>
          if err = ERR_OK then
            (case pbuf_at env t a of
               Some b \<Rightarrow> [Tcp_recved tpcb (pb_tot_len b), Pbuf_free p]
             | None \<Rightarrow> [])
          else Pbuf_free p # detach tpcb @ [Tcp_close tpcb]
      | None \<Rightarrow> Pbuf_free p # detach tpcb @ [Tcp_close tpcb])"
| "cb_events env t (Cb_accept newpcb err) =
     (if err = ERR_OK \<and> newpcb \<noteq> None then
        [Tcp_setprio_min newpcb, Tcp_arg_null newpcb, Tcp_recv newpcb (Some Fn_raw_recv),
         Tcp_err newpcb (Some Fn_raw_error), Tcp_poll newpcb None 0, Tcp_sent newpcb None]
      else [])"
| "cb_events env t (Cb_linkoutput i p) = Link_stats_xmit #
     (case p of
        Some a \<Rightarrow> (case pbuf_at env (t @ [Link_stats_xmit]) a of
          Some b \<Rightarrow> [Macphy_pkt_send (take (unat (pb_len b)) (pb_payload b))] | None \<Rightarrow> [])
      | None \<Rightarrow> [])"
| "cb_events env t _ = []"

fun batch_events :: "lwip_env \<Rightarrow> trace \<Rightarrow> callback list \<Rightarrow> event list" where
  "batch_events env t [] = []"
| "batch_events env t (cb # cbs) =
     cb_events env t cb @ batch_events env (t @ cb_events env t cb) cbs"

text \<open>The connection the module works on after a callback, given the one before.\<close>

fun cb_pcb :: "callback \<Rightarrow> cptr \<Rightarrow> cptr" where
  "cb_pcb (Cb_accept newpcb err) p = newpcb"
| "cb_pcb _ p = p"

lemma one_callback:
  assumes "core_inv s" and "batch_ok env (tr s) [cb]"
  shows "returns (run_callback env cb s) (\<lambda>s'.
    rx_content (rx s') = first_of (rx_content (rx s)) (cb_data cb) \<and>
    tcpip_raw_pcb s' = cb_pcb cb (tcpip_raw_pcb s) \<and>
    tr s' = tr s @ cb_events env (tr s) cb \<and> ledger (cb_events env (tr s) cb) [cb])"
proof (cases cb)
  case (Cb_recv tpcb p err)
  show ?thesis
  proof (cases "err = ERR_OK \<and> p \<noteq> None")
    case True
    then obtain a where a: "p = Some a" by blast
    with True Cb_recv assms(2) obtain b where "pbuf_at env (tr s) a = Some b"
      by (auto simp: batch_ok_def dest: lasting_now)
    with True a Cb_recv core_inv_rx(1) [OF assms(1)] show ?thesis
      by (auto simp: run_callback_def raw_recv_ok push_value_content first_of_def ledger_def
          recv_events_def split: option.split)
  next
    case False
    with Cb_recv show ?thesis
      by (auto simp: run_callback_def raw_recv_bad tcpip_raw_close_def detach_def ledger_def
          opt_list_def split: option.splits)
  qed
next
  case (Cb_linkoutput i p)
  with assms(2) obtain a where a: "p = Some a" "lasting env (tr s) a"
    by (auto simp: batch_ok_def)
  from a(2) obtain b where "pbuf_at env (tr s @ [Link_stats_xmit]) a = Some b"
    "unat (pb_len b) \<le> length (pb_payload b)"
    using lasting_now [OF lasting_append [OF a(2), of "[Link_stats_xmit]"]] by auto
  with a Cb_linkoutput show ?thesis
    by (auto simp: run_callback_def netif_output_def Let_def ledger_def)
next
  case (Cb_accept newpcb err)
  then show ?thesis
    by (auto simp: run_callback_def tcpip_raw_accept_def Let_def ledger_def)
qed (simp_all add: run_callback_def tcpip_raw_error_def tcpip_raw_connected_def
      netif_status_callback_def ledger_def)

lemma run_callbacks_exact:
  "core_inv s \<Longrightarrow> batch_ok env (tr s) cbs \<Longrightarrow> returns (run_callbacks env cbs s) (\<lambda>s'.
    rx_content (rx s') = first_of (rx_content (rx s)) (concat (map cb_data cbs)) \<and>
    tcpip_raw_pcb s' = fold cb_pcb cbs (tcpip_raw_pcb s) \<and>
    tr s' = tr s @ batch_events env (tr s) cbs \<and> ledger (batch_events env (tr s) cbs) cbs)"
proof (induction cbs arbitrary: s)
  case Nil
  then show ?case by (simp add: ledger_Nil)
next
  case (Cons cb cbs)
  let ?es = "cb_events env (tr s) cb"
  from Cons.prems(2) have "batch_ok env (tr s) [cb]"
    by (auto simp: batch_ok_def)
  from one_callback [OF Cons.prems(1) this] obtain s1
    where s1: "run_callback env cb s = Inr s1" "tr s1 = tr s @ ?es" "ledger ?es [cb]"
      "rx_content (rx s1) = first_of (rx_content (rx s)) (cb_data cb)"
      "tcpip_raw_pcb s1 = cb_pcb cb (tcpip_raw_pcb s)"
    by (auto simp: returns_iff)
  from run_callback_keeps [OF Cons.prems(1), of env cb] s1(1) have "core_inv s1" by simp
  moreover have "batch_ok env (tr s1) cbs"
    using batch_ok_tail [OF Cons.prems(2)] ledger_frees [OF s1(3)] s1(2) by simp
  ultimately show ?case using Cons.IH [of s1] s1
    by (auto elim!: returns_mono intro!: ledger_Cons)
qed

text \<open>The trace after a call with what it calls back, and after several; what they call back.\<close>

definition after_call :: "lwip_env \<Rightarrow> trace \<Rightarrow> event \<Rightarrow> trace" where
  "after_call env t e = t @ e # batch_events env (t @ [e]) (callbacks env (t @ [e]))"

fun after_calls :: "lwip_env \<Rightarrow> trace \<Rightarrow> event list \<Rightarrow> trace" where
  "after_calls env t [] = t"
| "after_calls env t (e # es) = after_calls env (after_call env t e) es"

fun called_back :: "lwip_env \<Rightarrow> trace \<Rightarrow> event list \<Rightarrow> callback list" where
  "called_back env t [] = []"
| "called_back env t (e # es) = callbacks env (t @ [e]) @ called_back env (after_call env t e) es"

text \<open>
  The driver stays within the frame buffer, every interface has an input function, and every
  batch of callbacks is as \<open>batch_ok\<close> says.
\<close>

definition serves :: "lwip_env \<Rightarrow> bool" where
  "serves env \<longleftrightarrow>
     (\<forall>t i. netif_input_set env t i) \<and>
     (\<forall>t. unat (fst (ans_frame env t)) \<le> 1500 \<and> length (snd (ans_frame env t)) \<le> 1500) \<and>
     (\<forall>t. batch_ok env t (callbacks env t))"

text \<open>Rounds of the periodic function in a trace: driver polls and timer runs.\<close>

definition polls :: "trace \<Rightarrow> nat" where
  "polls t = count_list t (Macphy_pkt_recv ETHERNET_MTU)"

definition timer_runs :: "trace \<Rightarrow> nat" where
  "timer_runs t = count_list t Sys_check_timeouts"

lemma rounds_append [simp]:
  "polls (t @ es) = polls t + polls es" "timer_runs (t @ es) = timer_runs t + timer_runs es"
  by (simp_all add: polls_def timer_runs_def)

lemma ledger_rounds:
  assumes "ledger es cbs"
  shows "polls (e # es) = polls [e]" "timer_runs (e # es) = timer_runs [e]"
  using assms by (simp_all add: ledger_def polls_def timer_runs_def count_list_0_iff)

lemma first_of_Some [simp]: "first_of (Some m) as = Some m"
  by (simp add: first_of_def)

text \<open>What a part of a round does: polls, timer runs, and a waiting packet stays.\<close>

definition progress :: "nat \<Rightarrow> nat \<Rightarrow> tcpip_state \<Rightarrow> tcpip_state \<Rightarrow> bool" where
  "progress i j s s' \<longleftrightarrow> core_inv s' \<and>
     (\<forall>m. rx_content (rx s) = Some m \<longrightarrow> rx_content (rx s') = Some m) \<and>
     polls (tr s') = polls (tr s) + i \<and> timer_runs (tr s') = timer_runs (tr s) + j"

lemma progress_trans: "progress i j s t \<Longrightarrow> progress k l t u \<Longrightarrow> progress (i + k) (j + l) s u"
  by (simp add: progress_def)

lemma progress_events:
  "core_inv s \<Longrightarrow> no_close es \<Longrightarrow> progress (polls es) (timer_runs es) s (emits es s)"
  by (simp add: progress_def)

lemma progress_refl: "core_inv s \<Longrightarrow> progress 0 0 s s"
  by (simp add: progress_def)

lemma call_cbs_exact:
  assumes "serves env" and "core_inv s" and "no_close [e]"
  shows "returns (call_cbs env e s) (\<lambda>s'. core_inv s' \<and>
    rx_content (rx s') = first_of (rx_content (rx s)) (concat (map cb_data (callbacks env (tr s @ [e])))) \<and>
    tcpip_raw_pcb s' = fold cb_pcb (callbacks env (tr s @ [e])) (tcpip_raw_pcb s) \<and>
    tr s' = after_call env (tr s) e \<and>
    ledger (batch_events env (tr s @ [e]) (callbacks env (tr s @ [e]))) (callbacks env (tr s @ [e])))"
proof -
  from assms(1) have "batch_ok env (tr (emit e s)) (callbacks env (tr (emit e s)))"
    unfolding serves_def by blast
  moreover have "core_inv (emit e s)" using assms(2,3) by simp
  ultimately show ?thesis
    using returns_conj [OF run_callbacks_exact call_cbs_keep [OF assms(2,3), of env, unfolded call_cbs_def Let_def]]
    by (auto simp: call_cbs_def Let_def after_call_def elim!: returns_mono)
qed

lemma call_cbs_serves:
  assumes "serves env" and "core_inv s" and "no_close [e]"
  shows "returns (call_cbs env e s) (progress (polls [e]) (timer_runs [e]) s)"
  by (rule returns_mono [OF call_cbs_exact [OF assms]])
     (auto simp: progress_def after_call_def ledger_rounds)

lemma input_loop_serves:
  assumes "serves env" and "core_inv s"
  shows "returns (input_loop env p MAX_TCPIP_LOCAL_ADDRESS 0 s) (progress 0 0 s)"
proof -
  from call_cbs_serves [OF assms, of "Netif_input p 0"] obtain t
    where t: "call_cbs env (Netif_input p 0) s = Inr t" "progress 0 0 s t"
    by (auto simp: returns_iff polls_def timer_runs_def)
  then have "core_inv t" by (simp add: progress_def)
  from progress_trans [OF t(2) progress_events [OF this, of "[Pbuf_free p]"]]
  have "progress 0 0 s (emit (Pbuf_free p) t)"
    by (simp add: polls_def timer_runs_def emits_def emit_def)
  with t assms(1) show ?thesis
    by (simp add: input_loop.simps MAX_TCPIP_LOCAL_ADDRESS_def serves_def Let_def)
qed

lemma main_serves:
  assumes "serves env" and "core_inv s"
  shows "returns (TcpIp_MainFunction env s) (progress 1 1 s)"
proof -
  obtain len bytes where fr: "ans_frame env (tr s @ [Macphy_pkt_recv ETHERNET_MTU]) = (len, bytes)"
    by fastforce
  with assms(1) have len: "unat len \<le> 1500" "length bytes \<le> 1500"
    unfolding serves_def by (metis fst_conv, metis snd_conv)
  from assms(2) have pkt: "length (Lwip_EthPkt s) = 1500"
    by (simp add: core_inv_def ETHERNET_MTU_def)
  define s1 where "s1 = (emit (Macphy_pkt_recv ETHERNET_MTU) s)
    \<lparr>Lwip_EthPkt := overlay bytes (Lwip_EthPkt s)\<rparr>"
  have s1: "progress 1 0 s s1" using assms(2) len pkt
    by (simp add: s1_def progress_def polls_def timer_runs_def)
  have last: "returns (call_cbs env Sys_check_timeouts t) (progress 1 1 s)" if "progress 1 0 s t" for t
  proof -
    from that have "core_inv t" by (simp add: progress_def)
    from call_cbs_serves [OF assms(1) this, of Sys_check_timeouts] that show ?thesis
      by (auto simp: polls_def timer_runs_def elim!: returns_mono dest: progress_trans)
  qed
  define s2 where "s2 = emit (Pbuf_alloc_raw_pool len) s1"
  define s3 where "s3 p = emit (Pbuf_take p (take (unat len) (Lwip_EthPkt s2))) s2" for p
  have s23: "progress 1 0 s s2" "progress 1 0 s (s3 p)" "progress 1 0 s (emit Link_stats_recv (s3 p))" for p
    using s1 by (simp_all add: s2_def s3_def progress_def polls_def timer_runs_def)
  have loop: "returns (input_loop env p MAX_TCPIP_LOCAL_ADDRESS 0 (emit Link_stats_recv (s3 p)))
      (progress 1 0 s)" for p
  proof -
    from s23(3) have "core_inv (emit Link_stats_recv (s3 p))" by (simp add: progress_def)
    from input_loop_serves [OF assms(1) this] show ?thesis
      by (rule returns_mono) (use progress_trans [OF s23(3) [of p]] in fastforce)
  qed
  have main: "TcpIp_MainFunction env s = (if len = 0 then call_cbs env Sys_check_timeouts s1
      else let p = ans_ptr env (tr s1 @ [Pbuf_alloc_raw_pool len]) in
        if p = None then call_cbs env Sys_check_timeouts (s3 p)
        else rbind (input_loop env p MAX_TCPIP_LOCAL_ADDRESS 0 (emit Link_stats_recv (s3 p)))
               (call_cbs env Sys_check_timeouts))"
    using fr len pkt
    by (simp add: TcpIp_MainFunction_def lwip_int_main_def Let_def call_ptr_def s1_def s2_def s3_def)
  show ?thesis
    using s1 [unfolded One_nat_def] s23 [unfolded One_nat_def]
    by (auto simp: main Let_def intro!: last [unfolded One_nat_def]
        returns_mono [OF loop [unfolded One_nat_def]])
qed

lemma rounds_return:
  assumes "serves env"
  shows "core_inv (core s) \<Longrightarrow>
    returns (api_run env (replicate n Op_MainFunction) s) (\<lambda>s'. progress n n (core s) (core s'))"
proof (induction n arbitrary: s)
  case 0
  then show ?case by (simp add: progress_refl)
next
  case (Suc n)
  from main_serves [OF assms Suc.prems] obtain k
    where k: "TcpIp_MainFunction env (core s) = Inr k" "progress 1 1 (core s) k"
    by (auto simp: returns_iff)
  then have "core_inv (core (s\<lparr>core := k\<rparr>))" by (simp add: progress_def)
  from Suc.IH [OF this] k show ?case
    by (auto simp: api_call_def on_core_def elim!: returns_mono dest: progress_trans)
qed

text \<open>What a run of several calls, each with what it calls back, does.\<close>

fun run_calls :: "lwip_env \<Rightarrow> event list \<Rightarrow> tcpip_state \<Rightarrow> tcpip_state result" where
  "run_calls env [] = Inr"
| "run_calls env (e # es) = (\<lambda>s. rbind (call_cbs env e s) (run_calls env es))"

lemma run_calls_exact:
  assumes "serves env"
  shows "core_inv s \<Longrightarrow> no_close es \<Longrightarrow> returns (run_calls env es s) (\<lambda>s'. core_inv s' \<and>
    rx_content (rx s') = first_of (rx_content (rx s)) (concat (map cb_data (called_back env (tr s) es))) \<and>
    tcpip_raw_pcb s' = fold cb_pcb (called_back env (tr s) es) (tcpip_raw_pcb s) \<and>
    tr s' = after_calls env (tr s) es)"
proof (induction es arbitrary: s)
  case (Cons e es)
  then have "no_close [e]" by simp
  from call_cbs_exact [OF assms Cons.prems(1) this] obtain t where t: "call_cbs env e s = Inr t"
    "core_inv t" "tr t = after_call env (tr s) e"
    "rx_content (rx t) = first_of (rx_content (rx s)) (concat (map cb_data (callbacks env (tr s @ [e]))))"
    "tcpip_raw_pcb t = fold cb_pcb (callbacks env (tr s @ [e])) (tcpip_raw_pcb s)"
    by (auto simp: returns_iff)
  with Cons.IH [OF t(2)] Cons.prems(2) show ?case by (auto elim!: returns_mono)
qed simp

definition interface_added :: "lwip_env \<Rightarrow> event list" where
  "interface_added env =
     [Lwip_init,
      Netif_add 0 (env_ip4_addr env 192 168 3 100) (env_ip4_addr env 255 255 255 0)
        (env_ip4_addr env 192 168 3 1)]"

definition interface_fields :: "lwip_env \<Rightarrow> event" where
  "interface_fields env = Netif_fields_set 0
     \<lparr>nf_linkoutput = Fn_netif_output, nf_output = Fn_etharp_output, nf_mtu = 1500,
      nf_flags = UNIV, nf_hwaddr = take (env_hwaddr_size env) (env_mac env),
      nf_hwaddr_len = of_nat (env_hwaddr_size env)\<rparr>"

definition interface_start :: "event list" where
  "interface_start = [Netif_set_default 0, Netif_set_up 0, Dhcp_inform 0, Netif_set_link_up 0]"

lemma Init_calls:
  assumes "env_hwaddr_size env \<le> length (env_mac env)"
  shows "TcpIp_Init env cfg s = run_calls env interface_start (emits (interface_added env @
    (if netif_add_inits env (tr s @ interface_added env) then [interface_fields env] else []) @
    [Netif_name_set 0 (of_char (CHR ''e'')) (of_char (CHR ''0'')), Netif_set_status_callback 0]) s)"
proof -
  have "{NETIF_FLAG_BROADCAST, NETIF_FLAG_ETHARP, NETIF_FLAG_ETHERNET, NETIF_FLAG_IGMP,
      NETIF_FLAG_MLD6} = UNIV"
    using netif_flag.exhaust by auto
  moreover have "init_loop env (Suc 0) = Inr"
    by (simp add: fun_eq_iff init_loop.simps MAX_TCPIP_LOCAL_ADDRESS_def)
  ultimately show ?thesis using assms
    by (simp add: TcpIp_Init_def lwip_int_init_def init_loop.simps [of env 0] init_netif_def Let_def
        MAX_TCPIP_LOCAL_ADDRESS_def TcpIpLocalAddrConfigs_def netif_initialize_def ETHERNET_MTU_def
        rbind_assoc interface_added_def interface_fields_def interface_start_def)
qed

lemma init_serves:
  assumes "serves env" and "core_inv s" and "env_hwaddr_size env \<le> length (env_mac env)"
  shows "returns (TcpIp_Init env cfg s) core_inv"
  unfolding Init_calls [OF assms(3)]
  by (rule returns_mono [OF run_calls_exact [OF assms(1)]])
     (use assms(2) in \<open>simp_all add: interface_added_def interface_fields_def interface_start_def\<close>)

subsection \<open>Properties\<close>

text \<open>C19: accounting of a batch of callbacks, of any kind and number, while lwIP handles one call.
  Provided lwIP hands no packet over twice in the batch and keeps a packet readable until it is
  given back, in a state with the module's invariant, as every reachable one, the batch returns
  and makes exactly these calls, callback by callback: of a data
  packet, one acknowledgement of its whole length to the connection it came on, then its release;
  of a packet with an error or an empty one, its release, the removal of the connection's callbacks
  and its close; of an accepted connection, its set-up; of a packet to be sent, its first segment
  to the driver (the further segments of a chained packet are not sent). Every packet handed over
  is given back exactly once, and no other. Of the data packets only the first is queued, and only
  if none was waiting, and the module works on the connection accepted last.\<close>
theorem callbacks_accounted:
  assumes "core_inv s" and "batch_ok env (tr s) cbs"
  shows "returns (run_callbacks env cbs s) (\<lambda>s'. core_inv s' \<and>
    tr s' = tr s @ batch_events env (tr s) cbs \<and>
    (\<forall>a. count_list (batch_events env (tr s) cbs) (Pbuf_free (Some a)) =
      (if a \<in> set (concat (map cb_received cbs)) then 1 else 0)) \<and>
    tcpip_raw_pcb s' = fold cb_pcb cbs (tcpip_raw_pcb s) \<and>
    rx_content (rx s') = (case rx_content (rx s) of Some m \<Rightarrow> Some m
      | None \<Rightarrow> (case concat (map cb_data cbs) of [] \<Rightarrow> None | a # _ \<Rightarrow> Some (Some a))))"
proof -
  from assms(2) have "distinct (concat (map cb_received cbs))" by (simp add: batch_ok_def)
  then have one: "count_list (concat (map cb_received cbs)) a =
      (if a \<in> set (concat (map cb_received cbs)) then 1 else 0)" for a
    by (rule count_distinct)
  from returns_conj [OF run_callbacks_exact [OF assms] run_callbacks_keep [OF assms(1)]]
  show ?thesis
    by (rule returns_mono) (auto simp only: ledger_def first_of_def one)
qed

lemma demo_lasting: "Pbuf_free (Some 7) \<notin> set t \<Longrightarrow> lasting demo_env t 7"
  by (simp add: lasting_def demo_env_def)

theorem callbacks_accounted_witness:
  "returns (run_callbacks demo_env [Cb_linkoutput 0 (Some 7), Cb_recv (Some 1) None ERR_OK] tcpip_init)
     (\<lambda>s'. tr s' = [Link_stats_xmit, Macphy_pkt_send [1, 2, 3], Pbuf_free None] @ detach (Some 1) @
        [Tcp_close (Some 1)] \<and> rx_content (rx s') = None) \<and>
   returns (run_callbacks demo_env [Cb_recv (Some 1) (Some 7) ERR_OK, Cb_recv (Some 2) None ERR_OK] tcpip_init)
     (\<lambda>s'. tr s' = [Tcp_recved (Some 1) 3, Pbuf_free (Some 7), Pbuf_free None] @ detach (Some 2) @
        [Tcp_close (Some 2)] \<and> rx_content (rx s') = Some (Some 7))"
proof -
  have [simp]: "pbuf_at demo_env [] 7 = Some demo_pbuf" "pbuf_at demo_env [Link_stats_xmit] 7 = Some demo_pbuf"
    "rx_content rx_init = None"
    by (simp_all add: demo_env_def rx_init_def rx_content_def)
  show ?thesis
    using callbacks_accounted [OF core_inv_init, of demo_env
        "[Cb_linkoutput 0 (Some 7), Cb_recv (Some 1) None ERR_OK]"]
      callbacks_accounted [OF core_inv_init, of demo_env
        "[Cb_recv (Some 1) (Some 7) ERR_OK, Cb_recv (Some 2) None ERR_OK]"]
    by (auto simp: batch_ok_def demo_lasting demo_pbuf_def elim!: returns_mono)
qed

text \<open>C20: the periodic function always comes back. Whatever calls led to the state, if the driver
  stays within the frame buffer, the interface has an input function and lwIP's batches of
  callbacks are well formed, then any number of calls of \<open>TcpIp_MainFunction\<close> return one after
  the other, each polls the driver once and runs the timers once, and a packet that waits for
  the application keeps waiting.\<close>
theorem periodic_function_always_returns:
  assumes "reach (sys_step env) socket_init s" and "serves env"
  shows "returns (api_run env (replicate n Op_MainFunction) s) (\<lambda>s'.
    polls (tr (core s')) = polls (tr (core s)) + n \<and>
    timer_runs (tr (core s')) = timer_runs (tr (core s)) + n \<and>
    (\<forall>m. rx_content (rx (core s)) = Some m \<longrightarrow> rx_content (rx (core s')) = Some m))"
proof -
  from sys.reach_inv [OF assms(1)] have "core_inv (core s)" by (rule sock_inv_core)
  from rounds_return [OF assms(2) this] show ?thesis
    by (rule returns_mono) (simp add: progress_def)
qed

lemma data_env_serves: "serves data_env"
  by (auto simp: serves_def data_env_def keep_env_def demo_env_def batch_ok_def lasting_def
      split: event.splits)

theorem periodic_function_always_returns_witness:
  "returns (api_run data_env (replicate 100 Op_MainFunction) accepted_state) (\<lambda>s'.
     polls (tr (core s')) = 100 \<and> timer_runs (tr (core s')) = 100)"
  using periodic_function_always_returns [OF accepted_state_reach data_env_serves, of 100]
  by (rule returns_mono) (simp add: polls_def timer_runs_def)

text \<open>C36: a received frame is handed over once. In a state with the module's invariant, as every
  reachable one, with a packet buffer available, the interface's input function set, the driver
  within the frame buffer and writing as many bytes as it returns, and lwIP's batches of callbacks
  well formed (\<open>batch_ok\<close>), one call of the periodic function returns and allocates a packet of the frame's length,
  fills it with exactly the received bytes, passes it to the interface, releases it if and only if
  the interface refuses it, and runs the timers last. Beyond these it makes only the calls of what
  lwIP calls back from the input function and from the timers, and these alone decide the
  connection and which packet waits.\<close>
theorem main_passes_received_frame:
  assumes "serves env" and "core_inv s"
    and "ans_frame env (tr s @ [Macphy_pkt_recv ETHERNET_MTU]) = (len, bytes)" and "len \<noteq> 0"
    and "unat len \<le> length bytes"
    and "ans_ptr env (tr s @ [Macphy_pkt_recv ETHERNET_MTU, Pbuf_alloc_raw_pool len]) = Some p"
    and "t = tr s @ [Macphy_pkt_recv ETHERNET_MTU, Pbuf_alloc_raw_pool len,
      Pbuf_take (Some p) (take (unat len) bytes), Link_stats_recv]"
    and "u = after_call env t (Netif_input (Some p) 0)"
    and "v = u @ (if ans_err env u = ERR_OK then [] else [Pbuf_free (Some p)])"
  shows "returns (TcpIp_MainFunction env s) (\<lambda>s'. tr s' = after_call env v Sys_check_timeouts \<and>
    (let cbs = callbacks env (t @ [Netif_input (Some p) 0]) @ callbacks env (v @ [Sys_check_timeouts])
     in tcpip_raw_pcb s' = fold cb_pcb cbs (tcpip_raw_pcb s) \<and>
        rx_content (rx s') = first_of (rx_content (rx s)) (concat (map cb_data cbs))))"
proof -
  from assms(1) have "length (snd (ans_frame env (tr s @ [Macphy_pkt_recv ETHERNET_MTU]))) \<le> 1500"
    unfolding serves_def by blast
  with assms(2,3) have fits: "length bytes \<le> length (Lwip_EthPkt s)"
    by (simp add: core_inv_def ETHERNET_MTU_def)
  define k where "k = emits [Macphy_pkt_recv ETHERNET_MTU, Pbuf_alloc_raw_pool len,
    Pbuf_take (Some p) (take (unat len) bytes), Link_stats_recv]
    (s\<lparr>Lwip_EthPkt := overlay bytes (Lwip_EthPkt s)\<rparr>)"
  have k: "core_inv k" "tr k = t" "rx k = rx s" "tcpip_raw_pcb k = tcpip_raw_pcb s"
    using assms(2,7) fits by (simp_all add: k_def)
  have set: "netif_input_set env x i" for x i using assms(1) by (simp add: serves_def)
  have move: "Lwip_EthPkt_update f (emits es s) = emits es (Lwip_EthPkt_update f s)" for f es
    by (simp add: emits_def)
  have main: "TcpIp_MainFunction env s = rbind (call_cbs env (Netif_input (Some p) 0) k) (\<lambda>s.
      call_cbs env Sys_check_timeouts (if ans_err env (tr s) \<noteq> ERR_OK then emit (Pbuf_free (Some p)) s else s))"
    using assms(3-6) fits
    by (simp add: TcpIp_MainFunction_def lwip_int_main_def Let_def call_ptr_def overlay_take k_def set
        input_loop.simps MAX_TCPIP_LOCAL_ADDRESS_def rbind_assoc move emit_def emits_def)
  from call_cbs_exact [OF assms(1) k(1), of "Netif_input (Some p) 0"] obtain k1
    where k1: "call_cbs env (Netif_input (Some p) 0) k = Inr k1" "core_inv k1" "tr k1 = u"
      "rx_content (rx k1) = first_of (rx_content (rx s)) (concat (map cb_data (callbacks env (t @ [Netif_input (Some p) 0]))))"
      "tcpip_raw_pcb k1 = fold cb_pcb (callbacks env (t @ [Netif_input (Some p) 0])) (tcpip_raw_pcb s)"
    by (auto simp: returns_iff k assms(8))
  define k2 where "k2 = (if ans_err env (tr k1) \<noteq> ERR_OK then emit (Pbuf_free (Some p)) k1 else k1)"
  have k2: "core_inv k2" "tr k2 = v" "rx k2 = rx k1" "tcpip_raw_pcb k2 = tcpip_raw_pcb k1"
    using k1(2,3) by (simp_all add: k2_def assms(9))
  from call_cbs_exact [OF assms(1) k2(1), of Sys_check_timeouts] show ?thesis
    by (simp add: main k1(1) flip: k2_def) (erule returns_mono, simp add: k2 k1(4,5) Let_def)
qed

theorem main_passes_received_frame_witness:
  "returns (TcpIp_MainFunction data_env tcpip_init) (\<lambda>s'.
     tr s' = [Macphy_pkt_recv 1500, Pbuf_alloc_raw_pool 3, Pbuf_take (Some 1) [1, 2, 3],
              Link_stats_recv, Netif_input (Some 1) 0, Tcp_recved (Some 3) 3, Pbuf_free (Some 7),
              Sys_check_timeouts] \<and> rx_content (rx s') = Some (Some 7))"
  by (rule returns_mono [OF main_passes_received_frame [OF data_env_serves core_inv_init _ _ _ _ refl refl refl,
        of 3 "[1, 2, 3]" 1]])
     (simp_all add: data_env_def keep_env_def demo_env_def demo_pbuf_def ETHERNET_MTU_def after_call_def
        first_of_def rx_content_def rx_init_def Let_def)

text \<open>C37: initialisation brings up the one configured interface. In a state with the module's
  invariant, with the hardware address at least as long as the interface's, \<open>netif_add\<close> running the
  initialisation function, the driver within the frame buffer, every input function set and lwIP's
  batches of callbacks well formed (\<open>serves\<close>), the call returns: lwIP is
  initialised, the interface is added with the configured address, netmask and router, and in its
  initialisation function set up for Ethernet with the driver's MTU and hardware address, named
  \<open>e0\<close>, made the default, brought up, announced by DHCP and its link set up, in this order.
  Beyond these it makes only the calls of what lwIP calls back from the last four, such as the
  status callback and the output of a gratuitous ARP request.\<close>
theorem init_brings_up_interface:
  assumes "serves env" and "core_inv s" and "\<And>t. netif_add_inits env t"
    and "env_hwaddr_size env \<le> length (env_mac env)"
    and "t = tr s @
      [Lwip_init,
       Netif_add 0 (env_ip4_addr env 192 168 3 100) (env_ip4_addr env 255 255 255 0)
         (env_ip4_addr env 192 168 3 1),
       Netif_fields_set 0
         \<lparr>nf_linkoutput = Fn_netif_output, nf_output = Fn_etharp_output, nf_mtu = 1500,
          nf_flags = UNIV, nf_hwaddr = take (env_hwaddr_size env) (env_mac env),
          nf_hwaddr_len = of_nat (env_hwaddr_size env)\<rparr>,
       Netif_name_set 0 (of_char (CHR ''e'')) (of_char (CHR ''0'')),
       Netif_set_status_callback 0]"
    and "es = [Netif_set_default 0, Netif_set_up 0, Dhcp_inform 0, Netif_set_link_up 0]"
  shows "returns (TcpIp_Init env cfg s) (\<lambda>s'. tr s' = after_calls env t es \<and>
    tcpip_raw_pcb s' = fold cb_pcb (called_back env t es) (tcpip_raw_pcb s) \<and>
    rx_content (rx s') = first_of (rx_content (rx s)) (concat (map cb_data (called_back env t es))))"
  unfolding Init_calls [OF assms(4)] assms(5,6)
  by (rule returns_mono [OF run_calls_exact [OF assms(1)]])
     (use assms(2,3) in \<open>simp_all add: interface_added_def interface_fields_def interface_start_def\<close>)

text \<open>An environment that announces the interface when it comes up.\<close>

definition arp_env :: lwip_env where
  "arp_env = keep_env\<lparr>callbacks := (\<lambda>t. case last t of
     Netif_set_up i \<Rightarrow> [Cb_status i, Cb_linkoutput i (Some 7)] | _ \<Rightarrow> [])\<rparr>"

theorem init_brings_up_interface_witness:
  "returns (TcpIp_Init arp_env None tcpip_init) (\<lambda>s'. drop 5 (tr s') =
     [Netif_set_default 0, Netif_set_up 0, Link_stats_xmit, Macphy_pkt_send [1, 2, 3], Dhcp_inform 0,
      Netif_set_link_up 0] \<and> tcpip_raw_pcb s' = None)"
proof -
  have "serves arp_env"
    by (auto simp: serves_def arp_env_def keep_env_def demo_env_def batch_ok_def lasting_def demo_pbuf_def
        split: event.splits)
  from init_brings_up_interface [OF this core_inv_init _ _ refl refl, of None] show ?thesis
    by (rule returns_mono)
       (simp_all add: arp_env_def keep_env_def demo_env_def demo_pbuf_def after_call_def)
qed

end
