(* ===== verification/Provenance.thy ===== *)
theory Provenance
  imports Effects "HOL-Library.Sublist"
begin

text \<open>
  Where the module's two references into lwIP come from: the connection it works on and the
  packet that waits for the application are, in every reachable state, ones that lwIP gave it
  in an answer or a callback.
\<close>

subsection \<open>What lwIP gave\<close>

text \<open>In the trace \<open>t\<close>, lwIP answered a call with the connection, or accepted it in a callback.\<close>

definition given_pcb :: "lwip_env \<Rightarrow> trace \<Rightarrow> nat \<Rightarrow> bool" where
  "given_pcb env t a \<longleftrightarrow> (\<exists>u e. prefix (u @ [e]) t \<and>
     (ans_ptr env (u @ [e]) = Some a \<and> (e = Tcp_new_ip_type_any \<or> (\<exists>p. e = Tcp_listen p)) \<or>
      (\<exists>err. Cb_accept (Some a) err \<in> set (callbacks env (u @ [e])))))"

definition given_packet :: "lwip_env \<Rightarrow> trace \<Rightarrow> nat \<Rightarrow> bool" where
  "given_packet env t a \<longleftrightarrow> (\<exists>u e tpcb. prefix (u @ [e]) t \<and>
     Cb_recv tpcb (Some a) ERR_OK \<in> set (callbacks env (u @ [e])))"

definition held :: "lwip_env \<Rightarrow> tcpip_state \<Rightarrow> bool" where
  "held env s \<longleftrightarrow> core_inv s \<and>
     (\<forall>a. tcpip_raw_pcb s = Some a \<longrightarrow> given_pcb env (tr s) a) \<and>
     (\<forall>a. rx_content (rx s) = Some (Some a) \<longrightarrow> given_packet env (tr s) a)"

lemma given_append:
  "given_pcb env t a \<Longrightarrow> given_pcb env (t @ es) a"
  "given_packet env t a \<Longrightarrow> given_packet env (t @ es) a"
  unfolding given_pcb_def given_packet_def by (blast intro: prefix_prefix)+

lemma held_core: "held env s \<Longrightarrow> core_inv s"
  by (simp add: held_def)

lemma held_init: "held env tcpip_init"
  by (simp add: held_def core_inv_init)

lemma held_emits [simp]: "held env s \<Longrightarrow> no_close es \<Longrightarrow> held env (emits es s)"
  by (auto simp: held_def intro: given_append)

lemma held_emit [simp]: "held env s \<Longrightarrow> (\<And>p. e \<noteq> Tcp_close p) \<Longrightarrow> held env (emit e s)"
  by (auto simp: held_def intro: given_append)

lemma held_close: "held env s \<Longrightarrow> held env (tcpip_raw_close p s)"
  using raw_close_keeps [of s p] by (auto simp: held_def tcpip_raw_close_def intro: given_append)

lemma held_buffer [simp]:
  "held env s \<Longrightarrow> length buf = length (Lwip_EthPkt s) \<Longrightarrow> held env (s\<lparr>Lwip_EthPkt := buf\<rparr>)"
  by (simp add: held_def)

text \<open>A connection taken from an answer.\<close>

lemma held_answer:
  assumes "held env s" and "e = Tcp_new_ip_type_any \<or> (\<exists>p. e = Tcp_listen p)"
  shows "held env (emit e s\<lparr>tcpip_raw_pcb := ans_ptr env (tr s @ [e])\<rparr>)"
proof -
  have "given_pcb env (tr s @ [e]) a" if "ans_ptr env (tr s @ [e]) = Some a" for a
    using assms(2) that by (auto simp: given_pcb_def)
  with assms show ?thesis by (auto simp: held_def intro: given_append)
qed

subsection \<open>Each operation keeps it\<close>

named_theorems held_keeps \<open>each operation keeps the provenance of what the module holds\<close>

lemma Close_held [held_keeps]: "held env s \<Longrightarrow> held env (snd (TcpIp_Close i a s))"
  by (simp add: TcpIp_Close_def held_close)

lemma Bind_held [held_keeps]:
  "held env s \<Longrightarrow> ensures (TcpIp_Bind env i a port s) (\<lambda>(r, s'). held env s')"
  using held_answer [of env s Tcp_new_ip_type_any]
  by (auto simp: TcpIp_Bind_def call_ptr_def call_err_def Let_def split: option.splits
      intro!: ensuresI)

lemma Listen_held [held_keeps]:
  "held env s \<Longrightarrow> ensures (TcpIp_TcpListen env i m s) (\<lambda>(r, s'). held env s')"
  using held_answer [of env s "Tcp_listen (tcpip_raw_pcb s)"]
  by (auto simp: TcpIp_TcpListen_def call_ptr_def Let_def intro!: ensuresI split: if_splits)

lemma Connect_held [held_keeps]:
  "held env s \<Longrightarrow> ensures (TcpIp_TcpConnect env i remote s) (\<lambda>(r, s'). held env s')"
  by (auto simp: TcpIp_TcpConnect_def call_ptr_def call_err_def Let_def split: option.splits
      intro!: ensuresI)

lemma send_held [held_keeps]:
  "held env s \<Longrightarrow> ensures (TcpIp_send env d n s) (\<lambda>(r, s'). held env s')"
  by (auto simp: TcpIp_send_def call_err_def Let_def split: option.splits intro!: ensuresI)

lemma recv_held [held_keeps]:
  assumes "held env s"
  shows "ensures (TcpIp_recv env d s) (\<lambda>(r, d', s'). held env s')"
proof -
  from pop_inv [OF core_inv_rx(1) [OF held_core [OF assms]]] obtain m r
    where "pop_pbuf_from_rx_ctrl_blk (rx s) = Inr (m, r)" "rx_inv r" "rx_content r = None"
    by (auto simp: returns_iff)
  with assms show ?thesis
    by (auto simp: held_def TcpIp_recv_def Let_def split: option.splits intro!: ensuresI)
qed

text \<open>A callback that lwIP runs at a point \<open>u @ [e]\<close> of the trace.\<close>

lemma callback_held:
  assumes "held env s" and "cb \<in> set (callbacks env (u @ [e]))" and "prefix (u @ [e]) (tr s)"
  shows "ensures (run_callback env cb s) (held env)"
proof (cases cb)
  case (Cb_recv tpcb p err)
  show ?thesis
  proof (cases "err = ERR_OK \<and> (\<exists>a b. p = Some a \<and> pbuf_at env (tr s) a = Some b)")
    case True
    then obtain a b where ab: "p = Some a" "err = ERR_OK" "pbuf_at env (tr s) a = Some b" by blast
    note rx = core_inv_rx [OF held_core [OF assms(1)]]
    have "given_packet env (tr s) a"
      using assms(2,3) Cb_recv ab unfolding given_packet_def by blast
    then have "held env (s\<lparr>rx := push_value (Some a) (rx s)\<rparr>)"
      using assms(1) rx
      by (auto simp: held_def push_value_inv push_value_real push_value_content split: option.splits)
    then have "held env (emits (recv_events tpcb a b) (s\<lparr>rx := push_value (Some a) (rx s)\<rparr>))"
      by (rule held_emits) (simp add: recv_events_def)
    with Cb_recv ab raw_recv_ok [OF rx(1) ab(3), of tpcb] show ?thesis
      by (simp add: run_callback_def emits_def)
  next
    case False
    with assms(1) Cb_recv show ?thesis
      by (cases "err = ERR_OK \<and> p \<noteq> None")
        (auto simp: run_callback_def raw_recv_bad tcpip_raw_recv_def held_close)
  qed
next
  case (Cb_accept newpcb err)
  then have "given_pcb env (tr s) a" if "newpcb = Some a" for a
    using assms(2,3) that unfolding given_pcb_def by blast
  then have "held env (s\<lparr>tcpip_raw_pcb := newpcb\<rparr>)"
    using assms(1) by (simp add: held_def)
  with Cb_accept show ?thesis
    by (simp add: run_callback_def tcpip_raw_accept_def Let_def)
next
  case (Cb_linkoutput i p)
  with assms(1) show ?thesis
    by (auto simp: run_callback_def netif_output_def Let_def split: if_splits intro!: ensuresI)
qed (use assms(1) in \<open>simp_all add: run_callback_def tcpip_raw_error_def tcpip_raw_connected_def
      netif_status_callback_def\<close>)

lemma callback_extends: "ensures (run_callback env cb s) (\<lambda>s'. prefix (tr s) (tr s'))"
proof (cases cb)
  case (Cb_recv tpcb p err)
  then show ?thesis
    by (auto simp: run_callback_def tcpip_raw_recv_def Let_def tcpip_raw_close_def intro!: ensuresI)
next
  case (Cb_accept newpcb err)
  then show ?thesis by (simp add: run_callback_def tcpip_raw_accept_def Let_def)
next
  case (Cb_linkoutput i p)
  then show ?thesis
    by (auto simp: run_callback_def netif_output_def Let_def split: if_splits intro!: ensuresI)
qed (simp_all add: run_callback_def tcpip_raw_error_def tcpip_raw_connected_def netif_status_callback_def)

lemma callbacks_held:
  "held env s \<Longrightarrow> set cbs \<subseteq> set (callbacks env (u @ [e])) \<Longrightarrow> prefix (u @ [e]) (tr s) \<Longrightarrow>
     ensures (run_callbacks env cbs s) (held env)"
proof (induction cbs arbitrary: s)
  case Nil
  then show ?case by simp
next
  case (Cons cb cbs)
  have "ensures (run_callbacks env cbs s1) (held env)" if "run_callback env cb s = Inr s1" for s1
  proof (rule Cons.IH)
    show "held env s1"
      using ensuresD [OF callback_held that, of u e] Cons.prems by simp
    show "prefix (u @ [e]) (tr s1)"
      using ensuresD [OF callback_extends that] Cons.prems(3) by (rule prefix_order.trans [rotated])
  qed (use Cons.prems(2) in simp)
  then show ?case by (auto intro: ensuresI)
qed

lemma call_cbs_held [held_keeps]:
  "held env s \<Longrightarrow> no_close [e] \<Longrightarrow> ensures (call_cbs env e s) (held env)"
  using callbacks_held [of env "emit e s" "callbacks env (tr s @ [e])" "tr s" e]
  by (simp add: call_cbs_def Let_def)

lemma input_loop_held [held_keeps]:
  "held env s \<Longrightarrow> ensures (input_loop env p MAX_TCPIP_LOCAL_ADDRESS 0 s) (held env)"
  by (auto simp: input_loop.simps MAX_TCPIP_LOCAL_ADDRESS_def Let_def
      intro!: ensures_mono [OF call_cbs_held])

lemma main_held [held_keeps]:
  assumes "held env s"
  shows "ensures (TcpIp_MainFunction env s) (held env)"
proof -
  have *: "ensures (call_cbs env Sys_check_timeouts t) (held env)"
    "ensures (input_loop env p MAX_TCPIP_LOCAL_ADDRESS 0 t) (\<lambda>u.
       ensures (call_cbs env Sys_check_timeouts u) (held env))" if "held env t" for t p
    using that by (auto intro!: call_cbs_held ensures_mono [OF input_loop_held])
  from assms show ?thesis
    by (auto simp: TcpIp_MainFunction_def lwip_int_main_def Let_def call_ptr_def
        split: prod.splits if_splits intro!: *)
qed

lemma init_netif_held [held_keeps]: "held env s \<Longrightarrow> ensures (init_netif env i s) (held env)"
  by (auto simp: init_netif_def Let_def netif_initialize_def
      intro!: ensures_mono [OF call_cbs_held] call_cbs_held)

lemma Init_held [held_keeps]: "held env s \<Longrightarrow> ensures (TcpIp_Init env cfg s) (held env)"
  by (auto simp: TcpIp_Init_def lwip_int_init_def init_loop.simps MAX_TCPIP_LOCAL_ADDRESS_def
      intro!: ensures_mono [OF init_netif_held])

subsection \<open>The functions of the core and the module\<close>

lemma core_step_held:
  assumes "core_step env k k'" and "held env k"
  shows "held env k'"
  using assms
proof cases
  case (core_close i a r)
  with Close_held [OF assms(2), of i a] show ?thesis by simp
qed (use assms(2) in \<open>auto dest: ensuresD [OF Bind_held]
      ensuresD [OF Listen_held] ensuresD [OF Connect_held] ensuresD [OF recv_held] ensuresD [OF send_held]
      ensuresD [OF main_held] ensuresD [OF Init_held]\<close>)

interpretation hold: step_invariant "core_move env" tcpip_init "held env" for env
  by unfold_locales (auto simp: core_move_def held_init intro: core_step_held)

subsection \<open>Properties\<close>

text \<open>C18: the module holds only what lwIP gave it. In every reachable state, under any calls and any
  behaviour of lwIP, the connection the module works on is NULL or one that lwIP returned from an
  allocation or a listen, or passed to the accept callback, at an earlier point of the history;
  and the packet that waits for the application is one that lwIP delivered, without error, to
  the receive callback.\<close>
theorem module_holds_what_lwip_gave:
  assumes "reach (sys_step env) socket_init s"
  shows "(\<forall>a. tcpip_raw_pcb (core s) = Some a \<longrightarrow> (\<exists>u e. prefix (u @ [e]) (tr (core s)) \<and>
      (ans_ptr env (u @ [e]) = Some a \<and> (e = Tcp_new_ip_type_any \<or> (\<exists>p. e = Tcp_listen p)) \<or>
       (\<exists>err. Cb_accept (Some a) err \<in> set (callbacks env (u @ [e])))))) \<and>
    (\<forall>a. rx_content (rx (core s)) = Some (Some a) \<longrightarrow> (\<exists>u e tpcb. prefix (u @ [e]) (tr (core s)) \<and>
      Cb_recv tpcb (Some a) ERR_OK \<in> set (callbacks env (u @ [e]))))"
  using hold.reach_inv [OF core_view.view_reach [OF assms]]
  by (simp add: held_def given_pcb_def given_packet_def)

theorem module_holds_what_lwip_gave_witness:
  "\<exists>(s :: socket_state) u e. rx_content (rx (core s)) = Some (Some 7) \<and> prefix (u @ [e]) (tr (core s)) \<and>
     (\<exists>tpcb. Cb_recv tpcb (Some 7) ERR_OK \<in> set (callbacks data_env (u @ [e])))"
proof -
  obtain s where s: "reach (sys_step data_env) socket_init s" "rx_content (rx (core s)) = Some (Some 7)"
    using waiting_state_reach by blast
  from module_holds_what_lwip_gave [OF s(1)] s(2) show ?thesis by blast
qed

end
