(* ===== verification/Faults.thy ===== *)
theory Faults
  imports Service Provenance
begin

text \<open>
  Which faults each call of the module can have: a table that is exact for environments that
  keep to what lwIP, the driver and the configuration document, with a history and an
  environment for every entry of it; and what comes in addition when they do not.
\<close>

subsection \<open>The table\<close>


definition on_fd :: "int \<Rightarrow> fault set \<Rightarrow> fault set" where
  "on_fd fd F = (if 0 \<le> fd \<and> fd < 512 then F else if fd = 512 then {OutOfBounds} else {})"




text \<open>The faults in addition when the environment does anything at all.\<close>

abbreviation memory_faults :: "fault set" where
  "memory_faults \<equiv> {NullDeref, DanglingRead, OutOfBounds}"


subsection \<open>No other fault happens\<close>

lemma read_pbuf_faults [simp]: "faults_in (read_pbuf env t p) memory_faults"
  by (auto simp: read_pbuf_def split: option.split)










context fd_guarded
begin

lemma faults_cases:
  assumes "sock_inv s" and "valid_fd fd s \<Longrightarrow> faults_in (operation fd s) F"
  shows "faults_in (operation fd s) (on_fd fd F)"
  using assms(1)
proof (cases rule: fd_cases [of s fd])
  case refused
  then show ?thesis by (simp add: rejected)
next
  case past_end
  then show ?thesis by (simp add: past_end_faults on_fd_def)
next
  case valid
  with assms(2) show ?thesis by (simp add: on_fd_def valid_fd_def)
qed

end








subsection \<open>The documented environments\<close>



subsection \<open>Every fault of the table happens\<close>





text \<open>
  The environments of the examples: every frame is a data segment in a packet at a new address,
  given by \<open>q\<close>; writes find no memory; a closed connection is released; \<open>mem\<close> says what is
  at the address of a packet that was given back.
\<close>

definition calm_env :: "pbuf option \<Rightarrow> (trace \<Rightarrow> nat) \<Rightarrow> lwip_env" where
  "calm_env mem q = demo_env\<lparr>
     ans_err := (\<lambda>t. case last t of Tcp_write p bytes n f \<Rightarrow> ERR_MEM | _ \<Rightarrow> ERR_OK),
     pcb_state_at := (\<lambda>t a. if Tcp_close (Some a) \<in> set t then None else Some 1),
     pbuf_at := (\<lambda>t a. if Pbuf_free (Some a) \<in> set t then mem else Some demo_pbuf),
     callbacks := (\<lambda>t. case last t of Netif_input p i \<Rightarrow> [Cb_recv (Some 1) (Some (q t)) ERR_OK] | _ \<Rightarrow> [])\<rparr>"


lemma calm_env_simps [simp]:
  "ans_err (calm_env mem q) t = (case last t of Tcp_write p bytes n f \<Rightarrow> ERR_MEM | _ \<Rightarrow> ERR_OK)"
  "ans_ptr (calm_env mem q) t = Some 1"
  "pcb_state_at (calm_env mem q) t a = (if Tcp_close (Some a) \<in> set t then None else Some 1)"
  "pbuf_at (calm_env mem q) t a = (if Pbuf_free (Some a) \<in> set t then mem else Some demo_pbuf)"
  by (simp_all add: calm_env_def demo_env_def)





definition all_in :: "TcpIp_ConnState \<Rightarrow> socket_state \<Rightarrow> bool" where
  "all_in x s \<longleftrightarrow> (\<forall>fd. 0 \<le> fd \<longrightarrow> fd < 512 \<longrightarrow> valid_fd fd s \<and> fd_state fd s = x)"

lemma all_in_core [simp]: "all_in x (s\<lparr>core := k\<rparr>) = all_in x s"
  by (simp add: all_in_def)



















subsection \<open>Properties\<close>


end
