(* ===== verification/Delivery.thy ===== *)
theory Delivery
  imports Service
begin

text \<open>
  A paced stream of segments from the wire to the application: the periodic function and a receive
  in turn, any number of times. What lwIP delivers to the module is what the application reads.
\<close>

subsection \<open>The application's loop\<close>

text \<open>One run of the periodic function and one receive for each of the application's buffers.\<close>

fun stream_run :: "lwip_env \<Rightarrow> int \<Rightarrow> u32 \<Rightarrow> u8 list list \<Rightarrow> socket_state
    \<Rightarrow> ((int \<times> u8 list option) list \<times> socket_state) result" where
  "stream_run env fd n [] s = Inr ([], s)"
| "stream_run env fd n (dst # dsts) s =
     rbind (api_call env Op_MainFunction s) (\<lambda>s.
     rbind (recv_call env fd (Some dst) n s) (\<lambda>(r, d, s).
     rbind (stream_run env fd n dsts s) (\<lambda>(out, s). Inr ((r, d) # out, s))))"

text \<open>The packets with data that lwIP passes to callbacks while the events \<open>es\<close> happen after \<open>t\<close>.\<close>

fun delivered :: "lwip_env \<Rightarrow> trace \<Rightarrow> event list \<Rightarrow> nat list" where
  "delivered env t [] = []"
| "delivered env t (e # es) =
     concat (map cb_data (callbacks env (t @ [e]))) @ delivered env (t @ [e]) es"

text \<open>
  The moments of the reads: the trace at a read and the packet read. From one read to the next,
  lwIP delivers exactly the packet that is read then.
\<close>

fun moments :: "lwip_env \<Rightarrow> trace \<Rightarrow> (trace \<times> nat) list \<Rightarrow> bool" where
  "moments env t [] \<longleftrightarrow> True"
| "moments env t ((u, a) # ps) \<longleftrightarrow> (\<exists>es. u = t @ es \<and> delivered env t es = [a]) \<and> moments env u ps"

text \<open>What reads at these moments give, up to the first that faults.\<close>

fun reads :: "lwip_env \<Rightarrow> (trace \<times> nat) list \<Rightarrow> u8 list list \<Rightarrow> (int \<times> u8 list option) list result" where
  "reads env ((u, a) # ps) (dst # dsts) =
     rbind (read_packet env u a dst) (\<lambda>(r, d).
     rbind (reads env ps dsts) (\<lambda>out. Inr ((r, Some d) # out)))"
| "reads env ps dsts = Inr []"

lemma delivered_append: "delivered env t (xs @ ys) = delivered env t xs @ delivered env (t @ xs) ys"
  by (induction xs arbitrary: t) simp_all

lemma delivered_none:
  "receives env tpcb q \<Longrightarrow> (\<And>p i. Netif_input p i \<notin> set es) \<Longrightarrow> delivered env t es = []"
proof (induction es arbitrary: t)
  case Nil
  then show ?case by simp
next
  case (Cons e es)
  from Cons.prems(2) have "\<And>p i. e \<noteq> Netif_input p i" by auto
  then have "callbacks env (t @ [e]) = []"
    using Cons.prems(1) by (auto simp: receives_def split: event.split)
  with Cons show ?case by simp
qed

lemma main_delivers:
  assumes env: "receives env tpcb q" and inv: "core_inv k"
  obtains k' a es where "TcpIp_MainFunction env k = Inr k'" "rx k' = push_value (Some a) (rx k)"
    "tr k' = tr k @ es" "delivered env (tr k) es = [a]"
proof -
  obtain k' a es p fs where k': "TcpIp_MainFunction env k = Inr k'" "rx k' = push_value (Some a) (rx k)"
    "tr k' = tr k @ es @ Netif_input p 0 # fs" "a = q (tr k @ es @ [Netif_input p 0])"
    "\<forall>p i. Netif_input p i \<notin> set es \<and> Netif_input p i \<notin> set fs"
    using main_receives [OF assms] by metis
  from env have "callbacks env (tr k @ es @ [Netif_input p 0]) = [Cb_recv tpcb (Some a) ERR_OK]"
    by (simp add: receives_def k'(4))
  with delivered_none [OF env] k'(5) have "delivered env (tr k) (es @ Netif_input p 0 # fs) = [a]"
    by (simp add: delivered_append)
  with k'(1-3) show ?thesis by (intro that [of k' a "es @ Netif_input p 0 # fs"]) simp_all
qed

lemma recv_call_reads:
  assumes "valid_fd fd s" and "TCPIP_ACCEPT \<le> fd_state fd s" and "core_inv (core s)"
    and "rx_content (rx (core s)) = Some (Some a)"
  obtains q where "rx_content q = None" "core_inv ((core s)\<lparr>rx := q\<rparr>)"
    "recv_call env fd (Some dst) n s = rbind (read_packet env (tr (core s)) a dst) (\<lambda>(r, d).
       Inr (r, Some d, s\<lparr>core := (core s)\<lparr>rx := q\<rparr>\<rparr>))"
proof -
  from recv_reads [OF core_inv_rx(1) [OF assms(3)] assms(4), of env dst] obtain q
    where q: "rx_inv q" "rx_content q = None" "TcpIp_recv env (Some dst) (core s) =
      rbind (read_packet env (tr (core s)) a dst) (\<lambda>(n, d). Inr (n, Some d, (core s)\<lparr>rx := q\<rparr>))" by blast
  from assms(3) q(1,2) have "core_inv ((core s)\<lparr>rx := q\<rparr>)" by simp
  with q(2,3) assms(1,2) show ?thesis
    by (intro that [of q]) (simp_all add: recv_call_def Recv_valid rbind_assoc case_prod_unfold)
qed

lemma stream_delivers:
  assumes env: "receives env tpcb q"
  shows "valid_fd fd s \<Longrightarrow> TCPIP_ACCEPT \<le> fd_state fd s \<Longrightarrow> core_inv (core s) \<Longrightarrow>
    rx_content (rx (core s)) = None \<Longrightarrow>
    \<exists>ps. moments env (tr (core s)) ps \<and>
      (case stream_run env fd n dsts s of
         Inr (out, s') \<Rightarrow> length ps = length dsts \<and> reads env ps dsts = Inr out \<and>
           rx_content (rx (core s')) = None \<and>
           (\<exists>es. tr (core s') = tr (core s) @ es \<and> delivered env (tr (core s)) es = map snd ps)
       | Inl f \<Rightarrow> ps \<noteq> [] \<and> length ps \<le> length dsts \<and>
           (\<exists>out. reads env (butlast ps) dsts = Inr out) \<and> reads env ps dsts = Inl f)"
proof (induction dsts arbitrary: s)
  case Nil
  then show ?case by (intro exI [of _ "[]"]) simp
next
  case (Cons dst dsts)
  from main_delivers [OF env Cons.prems(3)] obtain k a es where k: "TcpIp_MainFunction env (core s) = Inr k"
    "rx k = push_value (Some a) (rx (core s))" "tr k = tr (core s) @ es" "delivered env (tr (core s)) es = [a]" .
  let ?s = "s\<lparr>core := k\<rparr>"
  have call: "api_call env Op_MainFunction s = Inr ?s" using k(1) by (simp add: api_call_def on_core_def)
  have inv: "core_inv (core ?s)" using api_core_keeps(2) [OF Cons.prems(3), of env] k(1) by simp
  have rx: "rx_content (rx (core ?s)) = Some (Some a)"
    using core_inv_rx(1) [OF Cons.prems(3)] Cons.prems(4) k(2) by (simp add: push_value_content)
  obtain r where r: "rx_content r = None" "core_inv (k\<lparr>rx := r\<rparr>)"
    "recv_call env fd (Some dst) n ?s = rbind (read_packet env (tr k) a dst) (\<lambda>(n, d).
       Inr (n, Some d, s\<lparr>core := k\<lparr>rx := r\<rparr>\<rparr>))"
    using recv_call_reads [OF _ _ inv rx, of fd env dst n] Cons.prems(1,2) by auto
  show ?case
  proof (cases "read_packet env (tr k) a dst")
    case (Inl f)
    with call r(3) k(3,4) show ?thesis by (intro exI [of _ "[(tr k, a)]"]) auto
  next
    case (Inr x)
    then obtain m d where read: "read_packet env (tr k) a dst = Inr (m, d)" by (cases x) auto
    let ?t = "s\<lparr>core := k\<lparr>rx := r\<rparr>\<rparr>"
    have pre: "valid_fd fd ?t" "TCPIP_ACCEPT \<le> fd_state fd ?t" "core_inv (core ?t)" "rx_content (rx (core ?t)) = None"
      using Cons.prems(1,2) r(1,2) by (simp_all add: valid_fd_def)
    have c: "core ?t = k\<lparr>rx := r\<rparr>" "tr (k\<lparr>rx := r\<rparr>) = tr k" by simp_all
    from Cons.IH [OF pre, unfolded c] obtain ps where ps: "moments env (tr k) ps"
      "case stream_run env fd n dsts ?t of
         Inr (out, s') \<Rightarrow> length ps = length dsts \<and> reads env ps dsts = Inr out \<and>
           rx_content (rx (core s')) = None \<and>
           (\<exists>es. tr (core s') = tr k @ es \<and> delivered env (tr k) es = map snd ps)
       | Inl f \<Rightarrow> ps \<noteq> [] \<and> length ps \<le> length dsts \<and>
           (\<exists>out. reads env (butlast ps) dsts = Inr out) \<and> reads env ps dsts = Inl f" by blast
    have run: "stream_run env fd n (dst # dsts) s =
        rbind (stream_run env fd n dsts ?t) (\<lambda>(out, s'). Inr ((m, Some d) # out, s'))"
      by (simp add: call r(3) read)
    have all: "delivered env (tr (core s)) (es @ fs) = a # delivered env (tr k) fs" for fs
      by (simp add: delivered_append k(3,4))
    show ?thesis
    proof (cases "stream_run env fd n dsts ?t")
      case (Inl f)
      with ps k(3,4) read show ?thesis
        unfolding run by (intro exI [of _ "(tr k, a) # ps"]) auto
    next
      case (Inr y)
      then obtain out s' where y: "stream_run env fd n dsts ?t = Inr (out, s')" by (cases y) auto
      with ps(2) obtain fs where fs: "length ps = length dsts" "reads env ps dsts = Inr out"
        "rx_content (rx (core s')) = None" "tr (core s') = tr k @ fs" "delivered env (tr k) fs = map snd ps" by auto
      have "tr (core s') = tr (core s) @ es @ fs" by (simp add: fs(4) k(3))
      with y fs ps(1) k(3,4) read all [of fs] show ?thesis
        unfolding run by (intro exI [of _ "(tr k, a) # ps"]) (auto simp del: append_assoc intro!: exI [of _ "es @ fs"])
    qed
  qed
qed

subsection \<open>Properties\<close>

text \<open>C22: a stream that the application reads at the pace of the periodic function gets through in
  order, as far as lwIP's memory lasts. From any reachable state with an empty queue, on an accepted
  socket, with every frame a data segment and all other calls but writes successful: in each round
  of the periodic function and a receive, lwIP delivers one packet, and the receive reads that
  packet, at that moment. If the rounds come back, the \<open>i\<close>-th receive has returned the length and
  the bytes that the memory of the \<open>i\<close>-th packet had when it was read, in front of the rest of its
  buffer, every packet delivered has been read, and the queue is empty again. Otherwise they stop
  at a packet whose memory was unreadable when it was read, as lwIP has been asked to release it, or
  that was longer than the buffer or than its own memory, after all packets before it were read.\<close>
theorem paced_stream_delivered:
  assumes "reach (sys_step env) socket_init s" and "receives env tpcb q"
    and "rx_content (rx (core s)) = None" and "0 \<le> fd" and "fd < 512"
    and "TCPIP_ACCEPT \<le> TcpState (TcpIp_Socket_Conn s ! nat fd)"
  shows "\<exists>ps. moments env (tr (core s)) ps \<and>
    (case stream_run env fd n dsts s of
       Inr (out, s') \<Rightarrow> length ps = length dsts \<and> reads env ps dsts = Inr out \<and>
         rx_content (rx (core s')) = None \<and>
         (\<exists>es. tr (core s') = tr (core s) @ es \<and> delivered env (tr (core s)) es = map snd ps)
     | Inl f \<Rightarrow> ps \<noteq> [] \<and> length ps \<le> length dsts \<and>
         (\<exists>out. reads env (butlast ps) dsts = Inr out) \<and> reads env ps dsts = Inl f)"
proof -
  from sys.reach_inv [OF assms(1)] have inv: "sock_inv s" .
  with assms(4-6) have "valid_fd fd s" "TCPIP_ACCEPT \<le> fd_state fd s"
    by (simp_all add: valid_fd_def sock_inv_def)
  from stream_delivers [OF assms(2) this sock_inv_core [OF inv] assms(3)] show ?thesis .
qed

text \<open>
  Packets at addresses 1, 2, 3 and so on, each with its address as its only byte, of which only the
  last that was delivered is readable.
\<close>

fun is_input :: "event \<Rightarrow> bool" where
  "is_input (Netif_input p i) = True"
| "is_input _ = False"

definition inputs :: "trace \<Rightarrow> nat" where
  "inputs t = length (filter is_input t)"

definition fresh_env :: lwip_env where
  "fresh_env = demo_env\<lparr>
     pbuf_at := (\<lambda>t a. if a = inputs t
       then Some \<lparr>pb_payload = [of_nat a], pb_len = 1, pb_tot_len = 1\<rparr> else None),
     callbacks := (\<lambda>t. case last t of Netif_input p i \<Rightarrow> [Cb_recv (Some 3) (Some (inputs t)) ERR_OK] | _ \<Rightarrow> [])\<rparr>"

lemma fresh_receives: "receives fresh_env (Some 3) inputs"
  by (auto simp: receives_def fresh_env_def demo_env_def)

lemma fresh_delivered: "delivered fresh_env t es = [Suc (inputs t)..<Suc (inputs (t @ es))]"
proof (induction es arbitrary: t)
  case (Cons e es)
  have "callbacks fresh_env (t @ [e]) =
      (if is_input e then [Cb_recv (Some 3) (Some (Suc (inputs t))) ERR_OK] else [])"
    by (cases e) (simp_all add: fresh_env_def inputs_def)
  with Cons.IH [of "t @ [e]"] show ?case
    by (simp add: inputs_def upt_conv_Cons del: upt_Suc)
qed simp

lemma upt_one: "[i..<j] = [a] \<longleftrightarrow> j = Suc i \<and> a = i"
  by (cases "i < j") (auto simp: upt_conv_Cons)

text \<open>The rounds of the example come back, two packets are delivered, and the two receives give
  their bytes in the order of delivery.\<close>

theorem paced_stream_delivered_witness:
  "\<exists>s'. stream_run fresh_env 0 1 [[0, 0], [9]] accepted_state = Inr ([(1, Some [1, 0]), (1, Some [2])], s')"
proof -
  let ?run = "stream_run fresh_env 0 1 [[0, 0], [9]] accepted_state"
  from paced_stream_delivered [OF accepted_state_reach fresh_receives, where fd = 0 and n = 1 and dsts = "[[0, 0], [9]]"] obtain ps
    where ps: "moments fresh_env [] ps" and run: "case ?run of
       Inr (out, s') \<Rightarrow> length ps = length [[0, 0 :: u8], [9]] \<and> reads fresh_env ps [[0, 0], [9]] = Inr out \<and>
         rx_content (rx (core s')) = None \<and>
         (\<exists>es. tr (core s') = tr (core accepted_state) @ es \<and>
            delivered fresh_env (tr (core accepted_state)) es = map snd ps)
     | Inl f \<Rightarrow> ps \<noteq> [] \<and> length ps \<le> length [[0, 0 :: u8], [9]] \<and>
         (\<exists>out. reads fresh_env (butlast ps) [[0, 0], [9]] = Inr out) \<and> reads fresh_env ps [[0, 0], [9]] = Inl f"
    by (auto simp del: stream_run.simps)
  have read: "read_packet fresh_env u (inputs u) dst = Inr (1, of_nat (inputs u) # tl dst)" if "dst \<noteq> []" for u dst
    using that by (cases dst) (auto simp: read_packet_def fresh_env_def)
  have first: "inputs u = 1 \<and> a = 1" if "moments fresh_env [] ((u, a) # qs)" for u a qs
    using that by (auto simp: fresh_delivered upt_one inputs_def simp del: upt_Suc)
  have second: "inputs v = 2 \<and> b = 2" if "moments fresh_env [] ((u, a) # (v, b) # qs)" for u a v b qs
    using that first [OF that] by (auto simp: fresh_delivered upt_one simp del: upt_Suc)
  show ?thesis
  proof (cases ?run)
    case (Inl f)
    with run obtain u a qs where qs: "ps = (u, a) # qs" "length qs \<le> 1" by (cases ps) auto
    from first [of u a qs] ps qs(1) have "read_packet fresh_env u a [0, 0] = Inr (1, [1, 0])"
      using read [of "[0, 0]" u] by simp
    moreover have "read_packet fresh_env v b [9] = Inr (1, [2])" if "qs = [(v, b)]" for v b
      using second [of u a v b "[]"] ps qs(1) that read [of "[9]" v] by simp
    ultimately have "\<exists>out. reads fresh_env ps [[0, 0], [9]] = Inr out"
      using qs by (cases qs) auto
    with run Inl show ?thesis by auto
  next
    case (Inr y)
    then obtain out s' where y: "?run = Inr (out, s')" by (cases y) auto
    with run obtain u a v b where qs: "ps = [(u, a), (v, b)]" by (auto simp: length_Suc_conv)
    from first [of u a "[(v, b)]"] second [of u a v b "[]"] ps qs
    have "read_packet fresh_env u a [0, 0] = Inr (1, [1, 0])" "read_packet fresh_env v b [9] = Inr (1, [2])"
      using read [of "[0, 0]" u] read [of "[9]" v] by simp_all
    with y run qs show ?thesis by (auto simp del: stream_run.simps)
  qed
qed

end
