(* ===== verification/Handover.thy ===== *)
theory Handover
  imports Tcp_Core
begin

text \<open>
  The receive callback of lwIP and the receive of the application on one packet, overlapping:
  \<open>tcpip_raw_recv\<close> and \<open>TcpIp_recv\<close> of \<open>src/TcpIp.c\<close> step by step, a step being one
  call or one read of the packet. The callback gives the packet back to lwIP while the application
  may still be copying from it. A push and a pop are one step here; \<open>Rx_Race\<close> takes them apart.
\<close>

subsection \<open>The two functions, step by step\<close>

text \<open>
  \<open>tcpip_raw_recv\<close> on a packet without error: reading \<open>p->tot_len\<close> to acknowledge it, the
  push, \<open>pbuf_free\<close>. \<open>TcpIp_recv\<close>: the pop, reading \<open>pbuf->len\<close>, copying byte \<open>i\<close>
  of \<open>n\<close>, the return.
\<close>

datatype give_pc = G_ack nat | G_push nat | G_free nat | G_done

datatype take_pc =
    T_pop "u8 list"
  | T_len nat "u8 list"
  | T_copy nat nat nat "u8 list"
  | T_done int "u8 list"

text \<open>The queue, lwIP's packets (\<open>None\<close>: released), and where the two functions are.\<close>

record handover =
  hq :: rx_state
  mem :: "nat \<Rightarrow> pbuf option"
  giver :: give_pc
  taker :: take_pc

definition read_mem :: "(nat \<Rightarrow> pbuf option) \<Rightarrow> nat \<Rightarrow> pbuf result" where
  "read_mem m a = (case m a of None \<Rightarrow> Inl DanglingRead | Some b \<Rightarrow> Inr b)"

definition give_step :: "handover \<Rightarrow> handover result" where
  "give_step s =
     (case giver s of
        G_ack a \<Rightarrow> rbind (read_mem (mem s) a) (\<lambda>_. Inr (s\<lparr>giver := G_push a\<rparr>))
      | G_push a \<Rightarrow> rbind (push_to_rx_ctrl_blk (Some a) (hq s)) (\<lambda>r.
          Inr (s\<lparr>hq := r, giver := G_free a\<rparr>))
      | G_free a \<Rightarrow> Inr (s\<lparr>mem := (mem s)(a := None), giver := G_done\<rparr>)
      | G_done \<Rightarrow> Inr s)"

definition take_step :: "handover \<Rightarrow> handover result" where
  "take_step s =
     (case taker s of
        T_pop dst \<Rightarrow> rbind (pop_pbuf_from_rx_ctrl_blk (hq s)) (\<lambda>(p, r).
          Inr (s\<lparr>hq := r, taker := (case p of None \<Rightarrow> T_done 0 dst | Some a \<Rightarrow> T_len a dst)\<rparr>))
      | T_len a dst \<Rightarrow> rbind (read_mem (mem s) a) (\<lambda>b.
          Inr (s\<lparr>taker := T_copy a 0 (unat (pb_len b)) dst\<rparr>))
      | T_copy a i n dst \<Rightarrow>
          (if i < n then
             rbind (read_mem (mem s) a) (\<lambda>b.
             if i < length (pb_payload b) \<and> i < length dst
             then Inr (s\<lparr>taker := T_copy a (i + 1) n (dst[i := pb_payload b ! i])\<rparr>)
             else Inl OutOfBounds)
           else Inr (s\<lparr>taker := T_done (int n) dst\<rparr>))
      | T_done r dst \<Rightarrow> Inr s)"

datatype turn = Give | Take

fun hand_run :: "turn list \<Rightarrow> handover \<Rightarrow> handover result" where
  "hand_run [] s = Inr s"
| "hand_run (Give # ts) s = rbind (give_step s) (hand_run ts)"
| "hand_run (Take # ts) s = rbind (take_step s) (hand_run ts)"

text \<open>How many steps the application takes before the \<open>k\<close>-th step of the callback.\<close>

fun takes_before :: "nat \<Rightarrow> turn list \<Rightarrow> nat" where
  "takes_before 0 ts = 0"
| "takes_before (Suc k) [] = 0"
| "takes_before (Suc k) (Take # ts) = Suc (takes_before (Suc k) ts)"
| "takes_before (Suc k) (Give # ts) = takes_before k ts"

lemma hand_run_append: "hand_run (xs @ ys) s = rbind (hand_run xs s) (hand_run ys)"
proof (induction xs arbitrary: s)
  case (Cons t xs)
  then show ?case by (cases t) (auto simp: rbind_assoc intro!: rbind_cong)
qed simp

lemma first_give:
  "count_list ts Give = Suc k \<Longrightarrow> \<exists>j us. ts = replicate j Take @ Give # us \<and> count_list us Give = k"
proof (induction ts)
  case (Cons t ts)
  show ?case
  proof (cases t)
    case Give
    with Cons.prems show ?thesis by (intro exI [of _ 0] exI [of _ ts]) simp
  next
    case Take
    with Cons obtain j us where "ts = replicate j Take @ Give # us" "count_list us Give = k" by auto
    with Take show ?thesis by (intro exI [of _ "Suc j"] exI [of _ us]) simp
  qed
qed simp

lemma no_give: "count_list ts Give = 0 \<Longrightarrow> ts = replicate (length ts) Take"
proof (induction ts)
  case (Cons t ts)
  then show ?case by (cases t) auto
qed simp

lemma takes_before_replicate: "takes_before (Suc k) (replicate j Take @ Give # us) = j + takes_before k us"
  by (induction j) simp_all

lemma count_replicate: "count_list (replicate j x) x = j"
  by (induction j) simp_all

subsection \<open>The application's steps\<close>

text \<open>The buffer after \<open>j\<close> bytes, and where the application is \<open>t\<close> steps after its pop.\<close>

definition copied :: "pbuf \<Rightarrow> nat \<Rightarrow> u8 list \<Rightarrow> u8 list" where
  "copied b j dst = take j (pb_payload b) @ drop j dst"

definition taken_pc :: "nat \<Rightarrow> pbuf \<Rightarrow> u8 list \<Rightarrow> nat \<Rightarrow> take_pc" where
  "taken_pc a b dst t =
     (let n = unat (pb_len b)
      in if t = 0 then T_len a dst else if t \<le> n + 1 then T_copy a (t - 1) n (copied b (t - 1) dst)
         else T_done (int n) (copied b n dst))"

definition fits :: "pbuf \<Rightarrow> u8 list \<Rightarrow> bool" where
  "fits b dst \<longleftrightarrow> unat (pb_len b) \<le> length (pb_payload b) \<and> unat (pb_len b) \<le> length dst"

lemma copied_step:
  assumes "fits b dst" and "i < unat (pb_len b)"
  shows "(copied b i dst)[i := pb_payload b ! i] = copied b (Suc i) dst" "i < length (copied b i dst)"
    "i < length (pb_payload b)"
proof -
  from assms have i: "i < length (pb_payload b)" "i < length dst" by (auto simp: fits_def)
  then show "i < length (copied b i dst)" "i < length (pb_payload b)" by (simp_all add: copied_def)
  from i show "(copied b i dst)[i := pb_payload b ! i] = copied b (Suc i) dst"
    by (intro nth_equalityI) (auto simp: copied_def nth_list_update nth_append less_Suc_eq min_absorb2)
qed

lemma take_live:
  assumes "mem s a = Some b" and "fits b dst" and "taker s = taken_pc a b dst t"
  shows "take_step s = Inr (s\<lparr>taker := taken_pc a b dst (Suc t)\<rparr>)"
proof -
  consider "t = 0" | i where "t = Suc i" "i < unat (pb_len b)" | "t = Suc (unat (pb_len b))"
    | "Suc (unat (pb_len b)) < t"
  proof (cases t)
    case (Suc i)
    then show thesis using that linorder_less_linear [of i "unat (pb_len b)"] by blast
  qed (rule that)
  then show ?thesis
  proof cases
    case 1
    with assms show ?thesis by (simp add: take_step_def taken_pc_def read_mem_def copied_def Let_def)
  next
    case 2
    with assms copied_step [OF assms(2) 2(2)] show ?thesis
      by (simp add: take_step_def taken_pc_def read_mem_def Let_def)
  next
    case 3
    with assms show ?thesis by (simp add: take_step_def taken_pc_def Let_def)
  next
    case 4
    with assms have "taker s = T_done (int (unat (pb_len b))) (copied b (unat (pb_len b)) dst)"
      "taken_pc a b dst (Suc t) = taker s" by (simp_all add: taken_pc_def Let_def)
    then show ?thesis by (simp add: take_step_def)
  qed
qed

lemma takes_live:
  "mem s a = Some b \<Longrightarrow> fits b dst \<Longrightarrow> taker s = taken_pc a b dst t \<Longrightarrow>
     hand_run (replicate k Take) s = Inr (s\<lparr>taker := taken_pc a b dst (t + k)\<rparr>)"
proof (induction k arbitrary: s t)
  case (Suc k)
  from Suc.IH [of "s\<lparr>taker := taken_pc a b dst (Suc t)\<rparr>" "Suc t"] Suc.prems take_live [OF Suc.prems]
  show ?case by simp
qed simp

lemma takes_done:
  "taker s = T_done r d \<Longrightarrow> hand_run (replicate k Take) s = Inr s"
  by (induction k) (simp_all add: take_step_def)

text \<open>With the packet released, the next read faults; after the last read there is none.\<close>

lemma takes_released:
  assumes "mem s a = None" and "taker s = taken_pc a b dst t"
  shows "t \<le> unat (pb_len b) \<Longrightarrow> hand_run (replicate (Suc k) Take) s = Inl DanglingRead"
    and "unat (pb_len b) < t \<Longrightarrow> hand_run (replicate (Suc k) Take) s =
      Inr (s\<lparr>taker := T_done (int (unat (pb_len b))) (copied b (unat (pb_len b)) dst)\<rparr>)"
proof -
  show "hand_run (replicate (Suc k) Take) s = Inl DanglingRead" if "t \<le> unat (pb_len b)"
    using assms that by (auto simp: take_step_def taken_pc_def read_mem_def Let_def)
  show "hand_run (replicate (Suc k) Take) s =
      Inr (s\<lparr>taker := T_done (int (unat (pb_len b))) (copied b (unat (pb_len b)) dst)\<rparr>)"
    if "unat (pb_len b) < t"
  proof -
    let ?s = "s\<lparr>taker := T_done (int (unat (pb_len b))) (copied b (unat (pb_len b)) dst)\<rparr>"
    from assms(2) that have "take_step s = Inr ?s"
      by (cases "t = unat (pb_len b) + 1") (auto simp: take_step_def taken_pc_def Let_def)
    then show ?thesis using takes_done [of ?s] by simp
  qed
qed

subsection \<open>The functions uninterrupted\<close>

text \<open>Run without interruption, the steps are the functions of \<open>Tcp_Core\<close>.\<close>

lemma give_equals_call:
  "hand_run [Give, Give, Give] \<lparr>hq = rx s, mem = pbuf_at env (tr s), giver = G_ack a, taker = t\<rparr> =
   rbind (tcpip_raw_recv env tpcb (Some a) ERR_OK s) (\<lambda>(e, s').
     Inr \<lparr>hq = rx s', mem = (pbuf_at env (tr s))(a := None), giver = G_done, taker = t\<rparr>)"
  by (cases "pbuf_at env (tr s) a"; cases "push_to_rx_ctrl_blk (Some a) (rx s)")
     (simp_all add: give_step_def read_mem_def tcpip_raw_recv_def Let_def)

lemma copy_steps:
  "mem s a = Some b \<Longrightarrow> taker s = T_copy a i n dst \<Longrightarrow> n - i < k \<Longrightarrow>
     hand_run (replicate k Take) s =
       rbind (copy_loop (pb_payload b) n i dst) (\<lambda>d. Inr (s\<lparr>taker := T_done (int n) d\<rparr>))"
proof (induction k arbitrary: s i dst)
  case (Suc k)
  show ?case
  proof (cases "i < n \<and> i < length (pb_payload b) \<and> i < length dst")
    case True
    let ?s = "s\<lparr>taker := T_copy a (i + 1) n (dst[i := pb_payload b ! i])\<rparr>"
    have "hand_run (replicate k Take) ?s = rbind (copy_loop (pb_payload b) n (i + 1) (dst[i := pb_payload b ! i]))
        (\<lambda>d. Inr (?s\<lparr>taker := T_done (int n) d\<rparr>))"
      using Suc.prems True by (intro Suc.IH) (simp, simp, linarith)
    with Suc.prems True show ?thesis
      by (simp add: take_step_def read_mem_def copy_loop.simps [of "pb_payload b" n i dst])
  next
    case False
    with Suc.prems takes_done [of "s\<lparr>taker := T_done (int n) dst\<rparr>" "int n" dst k] show ?thesis
      by (auto simp: take_step_def read_mem_def copy_loop.simps [of "pb_payload b" n i dst])
  qed
qed simp

lemma take_equals_call:
  assumes "65538 \<le> k"
  shows "hand_run (replicate k Take) \<lparr>hq = rx s, mem = pbuf_at env (tr s), giver = g, taker = T_pop dst\<rparr> =
    rbind (TcpIp_recv env (Some dst) s) (\<lambda>(r, d, s').
      Inr \<lparr>hq = rx s', mem = pbuf_at env (tr s), giver = g, taker = T_done r (the d)\<rparr>)"
proof -
  from assms have "k = Suc (Suc (k - 2))" "65535 < k - 2" by simp_all
  then obtain j where k: "k = Suc (Suc j)" "65535 < j" by blast
  show ?thesis
  proof (cases "pop_pbuf_from_rx_ctrl_blk (rx s)")
    case (Inr pr)
    obtain p r where pr: "pr = (p, r)" by (cases pr)
    let ?s = "\<lparr>hq = r, mem = pbuf_at env (tr s), giver = g, taker = T_done 0 dst\<rparr>"
    show ?thesis
    proof (cases p)
      case None
      with Inr pr takes_done [of ?s 0 dst "Suc j"] show ?thesis
        by (simp add: k take_step_def TcpIp_recv_def)
    next
      case (Some a)
      show ?thesis
      proof (cases "pbuf_at env (tr s) a")
        case None
        with Inr pr Some show ?thesis by (simp add: k take_step_def TcpIp_recv_def read_mem_def)
      next
        case live: (Some b)
        have "unat (pb_len b) - 0 < j" using k(2) unsigned_less [of "pb_len b", where ?'a = nat] by simp
        with Inr pr Some live copy_steps [of "?s\<lparr>taker := T_copy a 0 (unat (pb_len b)) dst\<rparr>" a b 0
            "unat (pb_len b)" dst j] show ?thesis
          by (simp add: k take_step_def TcpIp_recv_def read_mem_def Let_def rbind_assoc)
      qed
    qed
  qed (simp add: k take_step_def TcpIp_recv_def)
qed

subsection \<open>A pop before the push, and one after\<close>

lemma takes_empty:
  assumes "rx_inv (hq s)" and "rx_content (hq s) = None" and "taker s = T_pop dst"
  shows "\<exists>r. rx_inv r \<and> hand_run (replicate (Suc k) Take) s = Inr (s\<lparr>hq := r, taker := T_done 0 dst\<rparr>)"
proof -
  from pop_inv [OF assms(1)] assms(2) obtain r where r: "pop_pbuf_from_rx_ctrl_blk (hq s) = Inr (None, r)"
    "rx_inv r" by (auto simp: returns_iff)
  then have "take_step s = Inr (s\<lparr>hq := r, taker := T_done 0 dst\<rparr>)"
    using assms(3) by (simp add: take_step_def)
  with r(2) takes_done [of "s\<lparr>hq := r, taker := T_done 0 dst\<rparr>"] show ?thesis by auto
qed

lemma take_waiting:
  assumes "rx_inv (hq s)" and "rx_content (hq s) = Some (Some a)" and "taker s = T_pop dst"
  shows "\<exists>r. take_step s = Inr (s\<lparr>hq := r, taker := taken_pc a b dst 0\<rparr>)"
proof -
  from pop_inv [OF assms(1)] assms(2) obtain r where "pop_pbuf_from_rx_ctrl_blk (hq s) = Inr (Some a, r)"
    by (auto simp: returns_iff)
  with assms(3) show ?thesis by (auto simp: take_step_def taken_pc_def)
qed

text \<open>Once the application has its answer, the callback's steps change nothing of it.\<close>

lemma done_stays:
  assumes "taker s = T_done r d" and "rx_inv (hq s)" and "\<And>a. giver s = G_ack a \<Longrightarrow> mem s a \<noteq> None"
  shows "returns (hand_run ts s) (\<lambda>s'. taker s' = T_done r d)"
  using assms
proof (induction ts arbitrary: s)
  case (Cons t ts)
  show ?case
  proof (cases t)
    case Take
    with Cons.prems Cons.IH [of s] show ?thesis by (simp add: take_step_def)
  next
    case Give
    have "\<exists>s'. give_step s = Inr s' \<and> taker s' = T_done r d \<and> rx_inv (hq s') \<and>
        (\<forall>a. giver s' \<noteq> G_ack a)"
      using Cons.prems
      by (cases "giver s") (auto simp: give_step_def read_mem_def push_eq push_value_inv)
    then obtain s' where "give_step s = Inr s'" "taker s' = T_done r d" "rx_inv (hq s')"
      "\<And>a. giver s' \<noteq> G_ack a" by blast
    with Give Cons.IH [of s'] show ?thesis by simp
  qed
qed simp

text \<open>The push has run, and the application has not started.\<close>

lemma after_push:
  assumes "rx_inv (hq s)" and "rx_content (hq s) = Some (Some a)" and "taker s = T_pop dst"
    and "giver s = G_free a" and "mem s a = Some b" and "fits b dst"
    and "unat (pb_len b) + 3 \<le> j + k"
  shows "let n = unat (pb_len b); r = hand_run (replicate j Take @ Give # replicate k Take) s
    in if j < n + 2 then r = Inl DanglingRead
       else returns r (\<lambda>s'. taker s' = T_done (int n) (copied b n dst))"
proof -
  let ?n = "unat (pb_len b)"
  from take_waiting [OF assms(1-3), of b] obtain r where
    pop: "take_step s = Inr (s\<lparr>hq := r, taker := taken_pc a b dst 0\<rparr>)" by blast
  show ?thesis
  proof (cases j)
    case 0
    let ?s = "s\<lparr>mem := (mem s)(a := None), giver := G_done\<rparr>"
    from take_waiting [of ?s a dst b] assms(1-3) obtain r' where
      pop': "take_step ?s = Inr (?s\<lparr>hq := r', taker := taken_pc a b dst 0\<rparr>)" by auto
    from 0 assms(7) have "k = Suc (Suc (k - 2))" by simp
    then obtain k' where k: "k = Suc (Suc k')" by blast
    have "hand_run (replicate (Suc k') Take) (?s\<lparr>hq := r', taker := taken_pc a b dst 0\<rparr>) = Inl DanglingRead"
      by (rule takes_released(1) [of _ a b dst 0]) simp_all
    with 0 k pop' assms(4) show ?thesis by (simp add: give_step_def Let_def)
  next
    case (Suc t)
    let ?s = "s\<lparr>hq := r, taker := taken_pc a b dst t, mem := (mem s)(a := None), giver := G_done\<rparr>"
    have "hand_run (replicate t Take) (s\<lparr>hq := r, taker := taken_pc a b dst 0\<rparr>) =
        Inr (s\<lparr>hq := r, taker := taken_pc a b dst t\<rparr>)"
      using takes_live [of "s\<lparr>hq := r, taker := taken_pc a b dst 0\<rparr>" a b dst 0 t] assms(5,6) by simp
    with Suc pop assms(4) have run: "hand_run (replicate j Take @ Give # replicate k Take) s =
        hand_run (replicate k Take) ?s"
      by (simp add: hand_run_append give_step_def)
    have s: "mem ?s a = None" "taker ?s = taken_pc a b dst t" by simp_all
    show ?thesis
    proof (cases k)
      case 0
      with Suc assms(7) have "?n + 1 < t" by simp
      then have "taker ?s = T_done (int ?n) (copied b ?n dst)" by (simp add: taken_pc_def Let_def)
      moreover from run 0 have "hand_run (replicate j Take @ Give # replicate k Take) s = Inr ?s"
        by (simp only: replicate.simps hand_run.simps)
      ultimately show ?thesis using Suc \<open>?n + 1 < t\<close> by (simp add: Let_def del: hand_run.simps)
    next
      case (Suc k')
      show ?thesis
      proof (cases "t \<le> ?n")
        case True
        with takes_released(1) [OF s True, of k'] run Suc \<open>j = Suc t\<close> show ?thesis by (simp add: Let_def)
      next
        case False
        then have "hand_run (replicate j Take @ Give # replicate k Take) s =
            Inr (?s\<lparr>taker := T_done (int ?n) (copied b ?n dst)\<rparr>)"
          using run takes_released(2) [OF s, of k'] by (simp only: Suc not_le)
        with False \<open>j = Suc t\<close> show ?thesis by (simp add: Let_def del: hand_run.simps)
      qed
    qed
  qed
qed

subsection \<open>Properties\<close>

text \<open>C7: a receive that overlaps the receive callback, in every schedule of the two. With the queue
  empty at the start, lwIP releasing the packet when it is given back, and a buffer that is long
  enough: if the application looks into the queue before the push, it gets nothing; if it comes
  later, it gets the packet only if it has made its pop and all its reads before the callback's
  very next call, \<open>pbuf_free\<close>; in every other schedule it reads released memory.\<close>
theorem overlapping_receive_outcomes:
  fixes a :: nat
  assumes "reach rx_step rx_init q" and "rx_content q = None"
    and "m a = Some b" and "unat (pb_len b) \<le> length (pb_payload b)" and "unat (pb_len b) \<le> length dst"
    and "count_list ts Give = 3" and "unat (pb_len b) + 3 \<le> count_list ts Take"
  shows "let n = unat (pb_len b);
      r = hand_run ts \<lparr>hq = q, mem = m, giver = G_ack a, taker = T_pop dst\<rparr>
    in if 0 < takes_before 2 ts then returns r (\<lambda>s. taker s = T_done 0 dst)
       else if takes_before 3 ts < n + 2 then r = Inl DanglingRead
       else returns r (\<lambda>s. taker s = T_done (int n) (take n (pb_payload b) @ drop n dst))"
proof -
  from rxs.reach_inv [OF assms(1)] have q: "rx_inv q" .
  let ?s = "\<lparr>hq = q, mem = m, giver = G_ack a, taker = T_pop dst\<rparr>"
  from assms(6) have "count_list ts Give = Suc 2" by simp
  from first_give [OF this] obtain j1 us where us: "ts = replicate j1 Take @ Give # us"
    "count_list us Give = Suc 1" by auto
  from first_give [OF us(2)] obtain j2 vs where vs: "us = replicate j2 Take @ Give # vs"
    "count_list vs Give = Suc 0" by auto
  from first_give [OF vs(2)] obtain j3 ws where ws: "vs = replicate j3 Take @ Give # ws"
    "count_list ws Give = 0" by auto
  from no_give [OF ws(2)] obtain j4 where j4: "ws = replicate j4 Take" by blast
  have before: "takes_before 2 ts = j1 + j2" "takes_before 3 ts = j1 + (j2 + j3)"
    by (simp_all add: us(1) vs(1) ws(1) numeral_2_eq_2 numeral_3_eq_3 takes_before_replicate)
  have takes: "count_list ts Take = j1 + (j2 + (j3 + j4))"
    by (simp add: us(1) vs(1) ws(1) j4 count_replicate)
  have ack: "give_step (s\<lparr>mem := m, giver := G_ack a\<rparr>) = Inr (s\<lparr>mem := m, giver := G_push a\<rparr>)" for s
    using assms(3) by (simp add: give_step_def read_mem_def)
  have early: "returns (hand_run ts ?s) (\<lambda>s. taker s = T_done 0 dst)" if "0 < j1 + j2"
  proof (cases j1)
    case (Suc i)
    from takes_empty [of ?s dst i] q assms(2) obtain r where r: "rx_inv r"
      "hand_run (replicate j1 Take) ?s = Inr (?s\<lparr>hq := r, taker := T_done 0 dst\<rparr>)" by (auto simp: Suc)
    from done_stays [of "?s\<lparr>hq := r, taker := T_done 0 dst\<rparr>" 0 dst "Give # us"] r assms(3)
    show ?thesis by (simp add: us(1) hand_run_append)
  next
    case 0
    with that obtain i where i: "j2 = Suc i" by (cases j2) auto
    let ?t = "?s\<lparr>giver := G_push a\<rparr>"
    from takes_empty [of ?t dst i] q assms(2) obtain r where r: "rx_inv r"
      "hand_run (replicate j2 Take) ?t = Inr (?t\<lparr>hq := r, taker := T_done 0 dst\<rparr>)" by (auto simp: i)
    from done_stays [of "?t\<lparr>hq := r, taker := T_done 0 dst\<rparr>" 0 dst "Give # vs"] r ack [of ?s]
    show ?thesis by (simp add: us(1) vs(1) 0 hand_run_append)
  qed
  have late: "hand_run ts ?s = hand_run (replicate j3 Take @ Give # replicate j4 Take)
      (?s\<lparr>hq := push_value (Some a) q, giver := G_free a\<rparr>)" if "j1 + j2 = 0"
    using that assms(3) q by (simp add: us(1) vs(1) ws(1) j4 give_step_def read_mem_def push_eq)
  from after_push [of "?s\<lparr>hq := push_value (Some a) q, giver := G_free a\<rparr>" a dst b j3 j4]
    q assms(2-5,7) early late show ?thesis
    by (auto simp: before takes Let_def push_value_inv push_value_content fits_def copied_def)
qed

theorem overlapping_receive_outcomes_witness:
  "hand_run [Give, Give, Take, Take, Take, Give, Take, Take, Take]
     \<lparr>hq = rx_init, mem = (\<lambda>a. Some demo_pbuf), giver = G_ack 7, taker = T_pop [0, 0, 0]\<rparr> = Inl DanglingRead \<and>
   returns (hand_run [Give, Give, Take, Take, Take, Take, Take, Give, Take]
     \<lparr>hq = rx_init, mem = (\<lambda>a. Some demo_pbuf), giver = G_ack 7, taker = T_pop [0, 0, 0]\<rparr>)
     (\<lambda>s. taker s = T_done 3 [1, 2, 3])"
proof -
  note * = overlapping_receive_outcomes [OF reach_init rx_init_content, of "\<lambda>a. Some demo_pbuf" 7 demo_pbuf "[0, 0, 0]"]
  have before: "takes_before 2 (Give # Give # ts) = 0" "takes_before 3 [Give, Give, Take, Take, Take, Give, Take, Take, Take] = 3"
    "takes_before 3 [Give, Give, Take, Take, Take, Take, Take, Give, Take] = 5" for ts
    by (simp_all add: numeral_2_eq_2 numeral_3_eq_3)
  from * [of "[Give, Give, Take, Take, Take, Give, Take, Take, Take]"]
    * [of "[Give, Give, Take, Take, Take, Take, Take, Give, Take]"]
  show ?thesis by (simp add: demo_pbuf_def Let_def before del: hand_run.simps)
qed

end
