(* ===== verification/Sys_Arch.thy ===== *)
theory Sys_Arch
  imports Prelude
begin

text \<open>
  \<open>src/sys_arch.c\<close>: the operating system hooks of lwIP: the critical section, as the calls
  made into the interrupt service of the operating system, and the millisecond clock and the
  random number, both read off the tick counter.
\<close>

datatype irq_call = DisableAllInterrupts | ResumeAllInterrupts

text \<open>The result of \<open>sys_arch_protect\<close> is a \<open>void*\<close> that is always NULL.\<close>

definition sys_arch_protect :: "irq_call list \<Rightarrow> cptr \<times> irq_call list" where
  "sys_arch_protect calls = (None, calls @ [DisableAllInterrupts])"

definition sys_arch_unprotect :: "cptr \<Rightarrow> irq_call list \<Rightarrow> irq_call list" where
  "sys_arch_unprotect pval calls = calls @ [ResumeAllInterrupts]"

text \<open>
  \<open>OS_TICK_DURATION_ns\<close> and \<open>_GetOsTickCnt\<close> belong to the operating system: the
  duration is a positive number, the counter a 32-bit value.
\<close>

definition sys_now :: "nat \<Rightarrow> u32 \<Rightarrow> u32" where
  "sys_now OS_TICK_DURATION_ns OsTickCnt = OsTickCnt * of_nat (OS_TICK_DURATION_ns div 1000000)"

definition sys_rand :: "u32 \<Rightarrow> u32" where
  "sys_rand OsTickCnt = OsTickCnt"

subsection \<open>Properties\<close>

text \<open>The difference of two readings of \<open>sys_now\<close> is the number of ticks between them
  times the whole milliseconds of a tick, modulo \<open>2 ^ 32\<close>, also across a wrap of the tick
  counter or of the clock; a single reading is the product reduced modulo \<open>2 ^ 32\<close>.\<close>
theorem sys_now_elapsed:
  "sys_now d (t + k) - sys_now d t = k * of_nat (d div 1000000) \<and>
   unat (sys_now d t) = unat t * (d div 1000000) mod 2 ^ 32"
proof -
  have "sys_now d t = of_nat (unat t * (d div 1000000))" by (simp add: sys_now_def)
  then have "unat (sys_now d t) = unat t * (d div 1000000) mod 2 ^ 32"
    by (simp only: unat_of_nat) simp
  then show ?thesis by (simp add: sys_now_def distrib_right)
qed

end
