(* ===== verification/Lwip_Opts.thy ===== *)
theory Lwip_Opts
  imports Sys_Arch
begin

text \<open>
  The compile-time options of lwIP: \<open>cfg/lwipopts.h\<close>, which is in force,
  \<open>cfg/lwipopts_reference.h\<close>, the full set it was cut down from (prefix \<open>ref_\<close> here),
  and the pools of \<open>cfg/lwippools.h\<close>. A macro that stands for a number is the constant of
  its expression, with the arithmetic of the preprocessor; a macro over macros of lwIP takes
  these as arguments.
\<close>

subsection \<open>Arithmetic of the preprocessor\<close>

definition c_bool :: "bool \<Rightarrow> int" where "c_bool b = (if b then 1 else 0)"
definition c_not :: "int \<Rightarrow> int" where "c_not a = c_bool (a = 0)"
definition c_and :: "int \<Rightarrow> int \<Rightarrow> int" where "c_and a b = c_bool (a \<noteq> 0 \<and> b \<noteq> 0)"
definition c_or :: "int \<Rightarrow> int \<Rightarrow> int" where "c_or a b = c_bool (a \<noteq> 0 \<or> b \<noteq> 0)"
definition c_eq :: "int \<Rightarrow> int \<Rightarrow> int" where "c_eq a b = c_bool (a = b)"
definition c_div :: "int \<Rightarrow> int \<Rightarrow> int" where "c_div a b = sgn a * sgn b * (\<bar>a\<bar> div \<bar>b\<bar>)"

lemmas c_arith = c_bool_def c_not_def c_and_def c_or_def c_eq_def c_div_def

subsection \<open>The options in force\<close>

definition NO_SYS :: int where "NO_SYS = 1"
definition MEM_ALIGNMENT :: int where "MEM_ALIGNMENT = 4"
definition LWIP_RAW :: int where "LWIP_RAW = 1"
definition LWIP_NETCONN :: int where "LWIP_NETCONN = 0"
definition LWIP_SOCKET :: int where "LWIP_SOCKET = 0"
definition LWIP_DHCP :: int where "LWIP_DHCP = 1"
definition LWIP_ICMP :: int where "LWIP_ICMP = 1"
definition LWIP_UDP :: int where "LWIP_UDP = 1"
definition LWIP_TCP :: int where "LWIP_TCP = 1"
definition LWIP_DHCP_DOES_ACD_CHECK :: int where "LWIP_DHCP_DOES_ACD_CHECK = 0"
definition ETH_PAD_SIZE :: int where "ETH_PAD_SIZE = 0"
definition LWIP_NETIF_LINK_CALLBACK :: int where "LWIP_NETIF_LINK_CALLBACK = 1"
definition LWIP_NETIF_STATUS_CALLBACK :: int where "LWIP_NETIF_STATUS_CALLBACK = 1"
definition TCP_MSS :: int where "TCP_MSS = 1500 - 20 - 20"
definition TCP_SND_BUF :: int where "TCP_SND_BUF = 2 * TCP_MSS"
definition LWIP_HTTPD_CGI :: int where "LWIP_HTTPD_CGI = 0"
definition LWIP_HTTPD_SSI :: int where "LWIP_HTTPD_SSI = 0"
definition LWIP_HTTPD_SSI_INCLUDE_TAG :: int where "LWIP_HTTPD_SSI_INCLUDE_TAG = 0"
definition LWIP_DEBUG :: int where "LWIP_DEBUG = 1"

text \<open>The port test for DHCP; \<open>pp_ntohs\<close> is lwIP's byte swap.\<close>

definition LWIP_IP_ACCEPT_UDP_PORT :: "(u16 \<Rightarrow> u16) \<Rightarrow> u16 \<Rightarrow> bool" where
  "LWIP_IP_ACCEPT_UDP_PORT pp_ntohs p \<longleftrightarrow> p = pp_ntohs 67"

text \<open>The custom pools (number and size of the elements), under their \<open>#if\<close>.\<close>

definition lwip_malloc_pools :: "int \<Rightarrow> (nat \<times> nat) list" where
  "lwip_malloc_pools MEM_USE_POOLS =
     (if MEM_USE_POOLS \<noteq> 0 then [(20, 256), (10, 512), (5, 1512)] else [])"

subsection \<open>The reference options\<close>

text \<open>Memory.\<close>

definition ref_NO_SYS :: int where "ref_NO_SYS = 1"
definition ref_MEM_ALIGNMENT :: int where "ref_MEM_ALIGNMENT = 4"
definition ref_SYS_LIGHTWEIGHT_PROT :: int where "ref_SYS_LIGHTWEIGHT_PROT = 1"
definition ref_LWIP_SINGLE_NETIF :: int where "ref_LWIP_SINGLE_NETIF = 0"
definition ref_MEMP_MEM_MALLOC :: int where "ref_MEMP_MEM_MALLOC = 0"
definition ref_MEM_USE_POOLS :: int where "ref_MEM_USE_POOLS = 1"
definition ref_MEMP_USE_CUSTOM_POOLS :: int where "ref_MEMP_USE_CUSTOM_POOLS = 1"
definition ref_MEM_LIBC_MALLOC :: int where "ref_MEM_LIBC_MALLOC = 0"
definition ref_MEM_SIZE :: int where "ref_MEM_SIZE = 2 * 1024"
definition ref_PBUF_POOL_SIZE :: int where "ref_PBUF_POOL_SIZE = 40"
definition ref_LWIP_SNMP :: int where "ref_LWIP_SNMP = 1"
definition ref_LWIP_MDNS_RESPONDER :: int where "ref_LWIP_MDNS_RESPONDER = 1"
definition ref_MEMP_NUM_PBUF :: int where "ref_MEMP_NUM_PBUF = 16"
definition ref_MEMP_NUM_RAW_PCB :: int where "ref_MEMP_NUM_RAW_PCB = 8"
definition ref_MEMP_NUM_UDP_PCB :: int where "ref_MEMP_NUM_UDP_PCB = 6"
definition ref_MEMP_NUM_TCP_PCB :: int where "ref_MEMP_NUM_TCP_PCB = 7"
definition ref_MEMP_NUM_TCP_PCB_LISTEN :: int where "ref_MEMP_NUM_TCP_PCB_LISTEN = 8"
definition ref_MEMP_NUM_ARP_QUEUE :: int where "ref_MEMP_NUM_ARP_QUEUE = 30"

text \<open>ARP.\<close>

definition ref_LWIP_ARP :: int where "ref_LWIP_ARP = 1"
definition ref_ARP_TABLE_SIZE :: int where "ref_ARP_TABLE_SIZE = 10"
definition ref_ARP_MAXAGE :: int where "ref_ARP_MAXAGE = 300"
definition ref_ARP_QUEUEING :: int where "ref_ARP_QUEUEING = 0"
definition ref_ARP_QUEUE_LEN :: int where "ref_ARP_QUEUE_LEN = 3"
definition ref_ETHARP_SUPPORT_VLAN :: int where "ref_ETHARP_SUPPORT_VLAN = 0"
definition ref_LWIP_ETHERNET :: int where "ref_LWIP_ETHERNET = ref_LWIP_ARP"
definition ref_ETH_PAD_SIZE :: int where "ref_ETH_PAD_SIZE = 0"
definition ref_ETHARP_SUPPORT_STATIC_ENTRIES :: int where "ref_ETHARP_SUPPORT_STATIC_ENTRIES = 1"
definition ref_ETHARP_TABLE_MATCH_NETIF :: int where
  "ref_ETHARP_TABLE_MATCH_NETIF = c_not ref_LWIP_SINGLE_NETIF"

text \<open>DNS.\<close>

definition ref_LWIP_DNS :: int where "ref_LWIP_DNS = 1"
definition ref_DNS_TABLE_SIZE :: int where "ref_DNS_TABLE_SIZE = 4"
definition ref_DNS_MAX_NAME_LENGTH :: int where "ref_DNS_MAX_NAME_LENGTH = 256"
definition ref_DNS_MAX_SERVERS :: int where "ref_DNS_MAX_SERVERS = 2"
definition ref_DNS_MAX_RETRIES :: int where "ref_DNS_MAX_RETRIES = 4"
definition ref_DNS_DOES_NAME_CHECK :: int where "ref_DNS_DOES_NAME_CHECK = 1"
definition ref_LWIP_DNS_SECURE :: "int \<Rightarrow> int \<Rightarrow> int \<Rightarrow> int" where
  "ref_LWIP_DNS_SECURE rand_xid no_multiple rand_port = (rand_xid OR no_multiple) OR rand_port"
definition ref_DNS_LOCAL_HOSTLIST :: int where "ref_DNS_LOCAL_HOSTLIST = 0"
definition ref_DNS_LOCAL_HOSTLIST_IS_DYNAMIC :: int where "ref_DNS_LOCAL_HOSTLIST_IS_DYNAMIC = 0"
definition ref_LWIP_DNS_SUPPORT_MDNS_QUERIES :: int where "ref_LWIP_DNS_SUPPORT_MDNS_QUERIES = 0"

text \<open>IPv4.\<close>

definition ref_LWIP_IPV4 :: int where "ref_LWIP_IPV4 = 1"
definition ref_IP_FORWARD :: int where "ref_IP_FORWARD = 0"
definition ref_IP_REASSEMBLY :: int where "ref_IP_REASSEMBLY = 1"
definition ref_IP_FRAG :: int where "ref_IP_FRAG = 1"
definition ref_IP_OPTIONS_ALLOWED :: int where "ref_IP_OPTIONS_ALLOWED = 1"
definition ref_IP_REASS_MAXAGE :: int where "ref_IP_REASS_MAXAGE = 15"
definition ref_IP_REASS_MAX_PBUFS :: int where "ref_IP_REASS_MAX_PBUFS = 10"
definition ref_IP_DEFAULT_TTL :: int where "ref_IP_DEFAULT_TTL = 255"
definition ref_IP_SOF_BROADCAST :: int where "ref_IP_SOF_BROADCAST = 0"
definition ref_IP_SOF_BROADCAST_RECV :: int where "ref_IP_SOF_BROADCAST_RECV = 0"
definition ref_IP_FORWARD_ALLOW_TX_ON_RX_NETIF :: int where
  "ref_IP_FORWARD_ALLOW_TX_ON_RX_NETIF = 0"
definition ref_LWIP_ICMP :: int where "ref_LWIP_ICMP = 1"
definition ref_ICMP_TTL :: int where "ref_ICMP_TTL = ref_IP_DEFAULT_TTL"
definition ref_LWIP_BROADCAST_PING :: int where "ref_LWIP_BROADCAST_PING = 0"
definition ref_LWIP_MULTICAST_PING :: int where "ref_LWIP_MULTICAST_PING = 0"
definition ref_LWIP_RAW :: int where "ref_LWIP_RAW = 1"
definition ref_RAW_TTL :: int where "ref_RAW_TTL = ref_IP_DEFAULT_TTL"

text \<open>IPv6.\<close>

definition ref_LWIP_IPV6 :: int where "ref_LWIP_IPV6 = 1"
definition ref_IPV6_REASS_MAXAGE :: int where "ref_IPV6_REASS_MAXAGE = 60"
definition ref_LWIP_IPV6_SCOPES :: int where
  "ref_LWIP_IPV6_SCOPES = c_and ref_LWIP_IPV6 (c_not ref_LWIP_SINGLE_NETIF)"
definition ref_LWIP_IPV6_SCOPES_DEBUG :: int where "ref_LWIP_IPV6_SCOPES_DEBUG = 0"
definition ref_LWIP_IPV6_NUM_ADDRESSES :: int where "ref_LWIP_IPV6_NUM_ADDRESSES = 3"
definition ref_LWIP_IPV6_FORWARD :: int where "ref_LWIP_IPV6_FORWARD = 0"
definition ref_LWIP_IPV6_FRAG :: int where "ref_LWIP_IPV6_FRAG = 1"
definition ref_LWIP_IPV6_REASS :: int where "ref_LWIP_IPV6_REASS = ref_LWIP_IPV6"
definition ref_LWIP_IPV6_SEND_ROUTER_SOLICIT :: int where "ref_LWIP_IPV6_SEND_ROUTER_SOLICIT = 1"
definition ref_LWIP_IPV6_AUTOCONFIG :: int where "ref_LWIP_IPV6_AUTOCONFIG = ref_LWIP_IPV6"
definition ref_LWIP_IPV6_ADDRESS_LIFETIMES :: int where
  "ref_LWIP_IPV6_ADDRESS_LIFETIMES = ref_LWIP_IPV6_AUTOCONFIG"
definition ref_LWIP_IPV6_DUP_DETECT_ATTEMPTS :: int where "ref_LWIP_IPV6_DUP_DETECT_ATTEMPTS = 0"
definition ref_LWIP_ICMP6 :: int where "ref_LWIP_ICMP6 = ref_LWIP_IPV6"
definition ref_LWIP_ICMP6_DATASIZE :: int where "ref_LWIP_ICMP6_DATASIZE = 8"
definition ref_LWIP_ICMP6_HL :: int where "ref_LWIP_ICMP6_HL = 255"
definition ref_LWIP_IPV6_MLD :: int where "ref_LWIP_IPV6_MLD = ref_LWIP_IPV6"
definition ref_MEMP_NUM_MLD6_GROUP :: int where "ref_MEMP_NUM_MLD6_GROUP = 4"
definition ref_LWIP_ND6_QUEUEING :: int where "ref_LWIP_ND6_QUEUEING = ref_LWIP_IPV6"
definition ref_MEMP_NUM_ND6_QUEUE :: int where "ref_MEMP_NUM_ND6_QUEUE = 20"
definition ref_LWIP_ND6_NUM_NEIGHBORS :: int where "ref_LWIP_ND6_NUM_NEIGHBORS = 10"
definition ref_LWIP_ND6_NUM_DESTINATIONS :: int where "ref_LWIP_ND6_NUM_DESTINATIONS = 10"
definition ref_LWIP_ND6_NUM_PREFIXES :: int where "ref_LWIP_ND6_NUM_PREFIXES = 5"
definition ref_LWIP_ND6_NUM_ROUTERS :: int where "ref_LWIP_ND6_NUM_ROUTERS = 3"
definition ref_LWIP_ND6_MAX_MULTICAST_SOLICIT :: int where "ref_LWIP_ND6_MAX_MULTICAST_SOLICIT = 3"
definition ref_LWIP_ND6_MAX_UNICAST_SOLICIT :: int where "ref_LWIP_ND6_MAX_UNICAST_SOLICIT = 3"
definition ref_LWIP_ND6_MAX_ANYCAST_DELAY_TIME :: int where
  "ref_LWIP_ND6_MAX_ANYCAST_DELAY_TIME = 1000"
definition ref_LWIP_ND6_MAX_NEIGHBOR_ADVERTISEMENT :: int where
  "ref_LWIP_ND6_MAX_NEIGHBOR_ADVERTISEMENT = 3"
definition ref_LWIP_ND6_REACHABLE_TIME :: int where "ref_LWIP_ND6_REACHABLE_TIME = 30000"
definition ref_LWIP_ND6_RETRANS_TIMER :: int where "ref_LWIP_ND6_RETRANS_TIMER = 1000"
definition ref_LWIP_ND6_DELAY_FIRST_PROBE_TIME :: int where
  "ref_LWIP_ND6_DELAY_FIRST_PROBE_TIME = 5000"
definition ref_LWIP_ND6_ALLOW_RA_UPDATES :: int where "ref_LWIP_ND6_ALLOW_RA_UPDATES = 1"
definition ref_LWIP_ND6_TCP_REACHABILITY_HINTS :: int where
  "ref_LWIP_ND6_TCP_REACHABILITY_HINTS = 1"
definition ref_LWIP_ND6_RDNSS_MAX_DNS_SERVERS :: int where "ref_LWIP_ND6_RDNSS_MAX_DNS_SERVERS = 0"
definition ref_LWIP_IPV6_DHCP6 :: int where "ref_LWIP_IPV6_DHCP6 = 0"
definition ref_LWIP_IPV6_DHCP6_STATEFUL :: int where "ref_LWIP_IPV6_DHCP6_STATEFUL = 0"
definition ref_LWIP_IPV6_DHCP6_STATELESS :: int where
  "ref_LWIP_IPV6_DHCP6_STATELESS = ref_LWIP_IPV6_DHCP6"
definition ref_LWIP_DHCP6_GET_NTP_SRV :: int where "ref_LWIP_DHCP6_GET_NTP_SRV = 0"
definition ref_LWIP_DHCP6_MAX_NTP_SERVERS :: int where "ref_LWIP_DHCP6_MAX_NTP_SERVERS = 1"
definition ref_LWIP_DHCP6_MAX_DNS_SERVERS :: int where
  "ref_LWIP_DHCP6_MAX_DNS_SERVERS = ref_DNS_MAX_SERVERS"
definition ref_IPV6_FRAG_COPYHEADER :: int where "ref_IPV6_FRAG_COPYHEADER = 1"

text \<open>IGMP and DHCP.\<close>

definition ref_LWIP_IGMP :: int where "ref_LWIP_IGMP = 1"
definition ref_LWIP_DHCP :: int where "ref_LWIP_DHCP = 1"
definition ref_LWIP_DHCP_CHECK_LINK_UP :: int where "ref_LWIP_DHCP_CHECK_LINK_UP = 0"
definition ref_LWIP_DHCP_BOOTP_FILE :: int where "ref_LWIP_DHCP_BOOTP_FILE = 0"
definition ref_LWIP_DHCP_GET_NTP_SRV :: int where "ref_LWIP_DHCP_GET_NTP_SRV = 0"
definition ref_LWIP_DHCP_MAX_NTP_SERVERS :: int where "ref_LWIP_DHCP_MAX_NTP_SERVERS = 1"
definition ref_LWIP_DHCP_MAX_DNS_SERVERS :: int where
  "ref_LWIP_DHCP_MAX_DNS_SERVERS = ref_DNS_MAX_SERVERS"
definition ref_LWIP_AUTOIP :: int where "ref_LWIP_AUTOIP = 1"
definition ref_LWIP_DHCP_AUTOIP_COOP :: int where "ref_LWIP_DHCP_AUTOIP_COOP = 0"
definition ref_LWIP_DHCP_AUTOIP_COOP_TRIES :: int where "ref_LWIP_DHCP_AUTOIP_COOP_TRIES = 9"
definition ref_LWIP_MIB2_CALLBACKS :: int where "ref_LWIP_MIB2_CALLBACKS = 0"

text \<open>UDP.\<close>

definition ref_LWIP_UDP :: int where "ref_LWIP_UDP = 1"
definition ref_LWIP_UDPLITE :: int where "ref_LWIP_UDPLITE = 0"
definition ref_UDP_TTL :: int where "ref_UDP_TTL = ref_IP_DEFAULT_TTL"
definition ref_LWIP_NETBUF_RECVINFO :: int where "ref_LWIP_NETBUF_RECVINFO = 0"
definition ref_LWIP_MULTICAST_TX_OPTIONS :: int where
  "ref_LWIP_MULTICAST_TX_OPTIONS =
     c_and (c_or ref_LWIP_IGMP ref_LWIP_IPV6_MLD) (c_or ref_LWIP_UDP ref_LWIP_RAW)"

text \<open>TCP.\<close>

definition ref_LWIP_TCP :: int where "ref_LWIP_TCP = 1"
definition ref_TCP_TTL :: int where "ref_TCP_TTL = ref_IP_DEFAULT_TTL"
definition ref_TCP_MSS :: int where "ref_TCP_MSS = 536"
definition ref_TCP_WND :: int where "ref_TCP_WND = 10 * ref_TCP_MSS"
definition ref_TCP_MAXRTX :: int where "ref_TCP_MAXRTX = 12"
definition ref_TCP_SYNMAXRTX :: int where "ref_TCP_SYNMAXRTX = 6"
definition ref_TCP_QUEUE_OOSEQ :: int where "ref_TCP_QUEUE_OOSEQ = ref_LWIP_TCP"
definition ref_LWIP_TCP_SACK_OUT :: int where "ref_LWIP_TCP_SACK_OUT = 0"
definition ref_LWIP_TCP_MAX_SACK_NUM :: int where "ref_LWIP_TCP_MAX_SACK_NUM = 4"
definition ref_TCP_CALCULATE_EFF_SEND_MSS :: int where "ref_TCP_CALCULATE_EFF_SEND_MSS = 1"
definition ref_TCP_SND_BUF :: int where "ref_TCP_SND_BUF = 2 * ref_TCP_MSS"
definition ref_TCP_SND_QUEUELEN :: int where
  "ref_TCP_SND_QUEUELEN = c_div (4 * ref_TCP_SND_BUF + (ref_TCP_MSS - 1)) ref_TCP_MSS"
definition ref_TCP_SNDLOWAT :: "(int \<Rightarrow> int \<Rightarrow> int) \<Rightarrow> (int \<Rightarrow> int \<Rightarrow> int) \<Rightarrow> int" where
  "ref_TCP_SNDLOWAT lwip_max lwip_min =
     lwip_min (lwip_max (c_div ref_TCP_SND_BUF 2) ((2 * ref_TCP_MSS) + 1)) (ref_TCP_SND_BUF - 1)"
definition ref_TCP_SNDQUEUELOWAT :: "(int \<Rightarrow> int \<Rightarrow> int) \<Rightarrow> int" where
  "ref_TCP_SNDQUEUELOWAT lwip_max =
     lwip_max (c_div ref_TCP_SND_QUEUELEN 2) 5"
definition ref_TCP_OOSEQ_MAX_BYTES :: int where "ref_TCP_OOSEQ_MAX_BYTES = 0"
definition ref_TCP_OOSEQ_MAX_PBUFS :: int where "ref_TCP_OOSEQ_MAX_PBUFS = 0"
definition ref_TCP_LISTEN_BACKLOG :: int where "ref_TCP_LISTEN_BACKLOG = 0"
definition ref_TCP_DEFAULT_LISTEN_BACKLOG :: int where "ref_TCP_DEFAULT_LISTEN_BACKLOG = 0xff"
definition ref_TCP_OVERSIZE :: int where "ref_TCP_OVERSIZE = ref_TCP_MSS"
definition ref_LWIP_TCP_TIMESTAMPS :: int where "ref_LWIP_TCP_TIMESTAMPS = 0"
definition ref_TCP_WND_UPDATE_THRESHOLD :: "(int \<Rightarrow> int \<Rightarrow> int) \<Rightarrow> int" where
  "ref_TCP_WND_UPDATE_THRESHOLD lwip_min =
     lwip_min (c_div ref_TCP_WND 4) (ref_TCP_MSS * 4)"
definition ref_LWIP_EVENT_API :: int where "ref_LWIP_EVENT_API = 0"
definition ref_LWIP_CALLBACK_API :: int where "ref_LWIP_CALLBACK_API = 1"
definition ref_LWIP_WND_SCALE :: int where "ref_LWIP_WND_SCALE = 1"
definition ref_TCP_RCV_SCALE :: int where "ref_TCP_RCV_SCALE = 2"
definition ref_LWIP_TCP_PCB_NUM_EXT_ARGS :: int where "ref_LWIP_TCP_PCB_NUM_EXT_ARGS = 0"
definition ref_LWIP_ALTCP :: int where "ref_LWIP_ALTCP = 1"
definition ref_LWIP_ALTCP_TLS :: int where "ref_LWIP_ALTCP_TLS = 0"
definition ref_MEMP_NUM_TCP_SEG :: int where "ref_MEMP_NUM_TCP_SEG = ref_TCP_SND_QUEUELEN"

text \<open>Packet buffers.\<close>

definition ref_PBUF_LINK_HLEN :: int where "ref_PBUF_LINK_HLEN = 14 + ref_ETH_PAD_SIZE"
definition ref_PBUF_LINK_ENCAPSULATION_HLEN :: int where "ref_PBUF_LINK_ENCAPSULATION_HLEN = 0"
definition ref_PBUF_POOL_BUFSIZE :: "(int \<Rightarrow> int) \<Rightarrow> int" where
  "ref_PBUF_POOL_BUFSIZE align_size =
     align_size (ref_TCP_MSS + 40 + ref_PBUF_LINK_ENCAPSULATION_HLEN + ref_PBUF_LINK_HLEN)"

text \<open>Network interfaces.\<close>

definition ref_LWIP_NETIF_HOSTNAME :: int where "ref_LWIP_NETIF_HOSTNAME = 0"
definition ref_LWIP_NETIF_API :: int where "ref_LWIP_NETIF_API = 0"
definition ref_LWIP_NETIF_STATUS_CALLBACK :: int where "ref_LWIP_NETIF_STATUS_CALLBACK = 1"
definition ref_LWIP_NETIF_EXT_STATUS_CALLBACK :: int where "ref_LWIP_NETIF_EXT_STATUS_CALLBACK = 0"
definition ref_LWIP_NETIF_LINK_CALLBACK :: int where "ref_LWIP_NETIF_LINK_CALLBACK = 1"
definition ref_LWIP_NETIF_REMOVE_CALLBACK :: int where "ref_LWIP_NETIF_REMOVE_CALLBACK = 0"
definition ref_LWIP_NETIF_HWADDRHINT :: int where "ref_LWIP_NETIF_HWADDRHINT = 0"
definition ref_LWIP_NETIF_TX_SINGLE_PBUF :: int where "ref_LWIP_NETIF_TX_SINGLE_PBUF = 0"
definition ref_LWIP_NUM_NETIF_CLIENT_DATA :: int where "ref_LWIP_NUM_NETIF_CLIENT_DATA = 1"
definition ref_LWIP_NETIF_LOOPBACK :: int where "ref_LWIP_NETIF_LOOPBACK = 0"
definition ref_LWIP_HAVE_LOOPIF :: int where
  "ref_LWIP_HAVE_LOOPIF = c_and ref_LWIP_NETIF_LOOPBACK (c_not ref_LWIP_SINGLE_NETIF)"
definition ref_LWIP_LOOPIF_MULTICAST :: int where "ref_LWIP_LOOPIF_MULTICAST = 0"
definition ref_LWIP_LOOPBACK_MAX_PBUFS :: int where "ref_LWIP_LOOPBACK_MAX_PBUFS = 0"
definition ref_LWIP_NETIF_LOOPBACK_MULTITHREADING :: int where
  "ref_LWIP_NETIF_LOOPBACK_MULTITHREADING = c_not ref_NO_SYS"

text \<open>Sequential API.\<close>

definition ref_LWIP_NETCONN :: int where "ref_LWIP_NETCONN = 0"
definition ref_LWIP_TCPIP_TIMEOUT :: int where "ref_LWIP_TCPIP_TIMEOUT = 0"
definition ref_LWIP_NETCONN_SEM_PER_THREAD :: int where "ref_LWIP_NETCONN_SEM_PER_THREAD = 0"
definition ref_LWIP_NETCONN_FULLDUPLEX :: int where "ref_LWIP_NETCONN_FULLDUPLEX = 0"

text \<open>Sockets.\<close>

definition ref_LWIP_SOCKET :: int where "ref_LWIP_SOCKET = 0"
definition ref_LWIP_COMPAT_SOCKETS :: int where "ref_LWIP_COMPAT_SOCKETS = 1"
definition ref_LWIP_POSIX_SOCKETS_IO_NAMES :: int where "ref_LWIP_POSIX_SOCKETS_IO_NAMES = 1"
definition ref_LWIP_SOCKET_OFFSET :: int where "ref_LWIP_SOCKET_OFFSET = 0"
definition ref_LWIP_TCP_KEEPALIVE :: int where "ref_LWIP_TCP_KEEPALIVE = 0"
definition ref_LWIP_SO_SNDTIMEO :: int where "ref_LWIP_SO_SNDTIMEO = 0"
definition ref_LWIP_SO_RCVTIMEO :: int where "ref_LWIP_SO_RCVTIMEO = 0"
definition ref_LWIP_SO_SNDRCVTIMEO_NONSTANDARD :: int where
  "ref_LWIP_SO_SNDRCVTIMEO_NONSTANDARD = 0"
definition ref_LWIP_SO_RCVBUF :: int where "ref_LWIP_SO_RCVBUF = 0"
definition ref_LWIP_SO_LINGER :: int where "ref_LWIP_SO_LINGER = 0"
definition ref_RECV_BUFSIZE_DEFAULT :: int where "ref_RECV_BUFSIZE_DEFAULT = 8192"
definition ref_LWIP_TCP_CLOSE_TIMEOUT_MS_DEFAULT :: int where
  "ref_LWIP_TCP_CLOSE_TIMEOUT_MS_DEFAULT = 20000"
definition ref_SO_REUSE :: int where "ref_SO_REUSE = 0"
definition ref_SO_REUSE_RXTOALL :: int where "ref_SO_REUSE_RXTOALL = 0"
definition ref_LWIP_FIONREAD_LINUXMODE :: int where "ref_LWIP_FIONREAD_LINUXMODE = 0"
definition ref_LWIP_SOCKET_SELECT :: int where "ref_LWIP_SOCKET_SELECT = 1"
definition ref_LWIP_SOCKET_POLL :: int where "ref_LWIP_SOCKET_POLL = 1"

text \<open>Statistics.\<close>

definition ref_LWIP_STATS :: int where "ref_LWIP_STATS = 1"
definition ref_LWIP_STATS_DISPLAY :: int where "ref_LWIP_STATS_DISPLAY = 0"
definition ref_LINK_STATS :: int where "ref_LINK_STATS = 1"
definition ref_ETHARP_STATS :: int where "ref_ETHARP_STATS = ref_LWIP_ARP"
definition ref_IP_STATS :: int where "ref_IP_STATS = 1"
definition ref_IPFRAG_STATS :: int where "ref_IPFRAG_STATS = c_or ref_IP_REASSEMBLY ref_IP_FRAG"
definition ref_ICMP_STATS :: int where "ref_ICMP_STATS = 1"
definition ref_IGMP_STATS :: int where "ref_IGMP_STATS = ref_LWIP_IGMP"
definition ref_UDP_STATS :: int where "ref_UDP_STATS = ref_LWIP_UDP"
definition ref_TCP_STATS :: int where "ref_TCP_STATS = ref_LWIP_TCP"
definition ref_MEM_STATS :: int where
  "ref_MEM_STATS = c_and (c_eq ref_MEM_LIBC_MALLOC 0) (c_eq ref_MEM_USE_POOLS 0)"
definition ref_MEMP_STATS :: int where "ref_MEMP_STATS = c_eq ref_MEMP_MEM_MALLOC 0"
definition ref_SYS_STATS :: int where "ref_SYS_STATS = c_eq ref_NO_SYS 0"
definition ref_IP6_STATS :: int where "ref_IP6_STATS = ref_LWIP_IPV6"
definition ref_ICMP6_STATS :: int where "ref_ICMP6_STATS = c_and ref_LWIP_IPV6 ref_LWIP_ICMP6"
definition ref_IP6_FRAG_STATS :: int where
  "ref_IP6_FRAG_STATS = c_and ref_LWIP_IPV6 (c_or ref_LWIP_IPV6_FRAG ref_LWIP_IPV6_REASS)"
definition ref_MLD6_STATS :: int where "ref_MLD6_STATS = c_and ref_LWIP_IPV6 ref_LWIP_IPV6_MLD"
definition ref_ND6_STATS :: int where "ref_ND6_STATS = ref_LWIP_IPV6"
definition ref_MIB2_STATS :: int where "ref_MIB2_STATS = 1"

text \<open>Checksums.\<close>

definition ref_LWIP_CHECKSUM_CTRL_PER_NETIF :: int where "ref_LWIP_CHECKSUM_CTRL_PER_NETIF = 0"
definition ref_CHECKSUM_GEN_IP :: int where "ref_CHECKSUM_GEN_IP = 1"
definition ref_CHECKSUM_GEN_UDP :: int where "ref_CHECKSUM_GEN_UDP = 1"
definition ref_CHECKSUM_GEN_TCP :: int where "ref_CHECKSUM_GEN_TCP = 1"
definition ref_CHECKSUM_GEN_ICMP :: int where "ref_CHECKSUM_GEN_ICMP = 1"
definition ref_CHECKSUM_GEN_ICMP6 :: int where "ref_CHECKSUM_GEN_ICMP6 = 1"
definition ref_CHECKSUM_CHECK_IP :: int where "ref_CHECKSUM_CHECK_IP = 0"
definition ref_CHECKSUM_CHECK_UDP :: int where "ref_CHECKSUM_CHECK_UDP = 0"
definition ref_CHECKSUM_CHECK_TCP :: int where "ref_CHECKSUM_CHECK_TCP = 0"
definition ref_CHECKSUM_CHECK_ICMP :: int where "ref_CHECKSUM_CHECK_ICMP = 0"
definition ref_CHECKSUM_CHECK_ICMP6 :: int where "ref_CHECKSUM_CHECK_ICMP6 = 0"
definition ref_LWIP_CHECKSUM_ON_COPY :: int where "ref_LWIP_CHECKSUM_ON_COPY = 0"

text \<open>Debugging.\<close>

definition ref_LWIP_DEBUG :: int where "ref_LWIP_DEBUG = 1"

text \<open>The macros with an argument they do not use.\<close>

definition ref_TCP_OOSEQ_BYTES_LIMIT :: "cptr \<Rightarrow> int" where
  "ref_TCP_OOSEQ_BYTES_LIMIT pcb = ref_TCP_OOSEQ_MAX_BYTES"

definition ref_TCP_OOSEQ_PBUFS_LIMIT :: "cptr \<Rightarrow> int" where
  "ref_TCP_OOSEQ_PBUFS_LIMIT pcb = ref_TCP_OOSEQ_MAX_PBUFS"

subsection \<open>Debug switches\<close>

text \<open>
  The modules of lwIP whose messages both headers switch on, under their \<open>#if\<close>; the value
  \<open>LWIP_DBG_ON\<close> is lwIP's. A switch that is not defined is \<open>None\<close>.
\<close>

datatype debug_module =
    TCP_DEBUG | ETHARP_DEBUG | PBUF_DEBUG | IP_DEBUG | TCPIP_DEBUG | DHCP_DEBUG | UDP_DEBUG

definition debug_switch :: "'a \<Rightarrow> debug_module \<Rightarrow> 'a option" where
  "debug_switch LWIP_DBG_ON m = (if (1 :: int) \<noteq> 0 then Some LWIP_DBG_ON else None)"

definition ref_debug_switch :: "'a \<Rightarrow> debug_module \<Rightarrow> 'a option" where
  "ref_debug_switch LWIP_DBG_ON m = (if ref_LWIP_DEBUG = 1 then Some LWIP_DBG_ON else None)"

text \<open>The headers switch the same modules on, and set the symbol that compiles the messages in.\<close>

lemma debug_switches_agree:
  "debug_switch LWIP_DBG_ON = ref_debug_switch LWIP_DBG_ON" "LWIP_DEBUG = ref_LWIP_DEBUG"
  by (simp_all add: fun_eq_iff debug_switch_def ref_debug_switch_def LWIP_DEBUG_def ref_LWIP_DEBUG_def)

subsection \<open>Random numbers and reference counts\<close>

text \<open>The random number of the reference options is the operating system hook, the tick counter.\<close>

definition ref_LWIP_RAND :: "u32 \<Rightarrow> u32" where
  "ref_LWIP_RAND OsTickCnt = sys_rand OsTickCnt"

type_synonym ref_LWIP_PBUF_REF_T = u8

text \<open>Two readings in one tick give the same number.\<close>

lemma rand_is_tick: "ref_LWIP_RAND t = ref_LWIP_RAND t' \<longleftrightarrow> t = t'"
  by (simp add: ref_LWIP_RAND_def sys_rand_def)

subsection \<open>Properties\<close>

text \<open>lwIP's macros for the smaller and the larger value and for rounding up to the alignment.\<close>

definition macros_as_documented :: "(int \<Rightarrow> int \<Rightarrow> int) \<Rightarrow> (int \<Rightarrow> int \<Rightarrow> int) \<Rightarrow> (int \<Rightarrow> int) \<Rightarrow> bool"
  where
  "macros_as_documented lwip_min lwip_max align_size \<longleftrightarrow>
     (\<forall>a b. lwip_min a b = min a b) \<and> (\<forall>a b. lwip_max a b = max a b) \<and>
     (\<forall>n \<ge> 0. n \<le> align_size n \<and> align_size n < n + ref_MEM_ALIGNMENT)"

text \<open>The derived TCP options of the reference configuration fit together as lwIP documents they
  must: the send buffer holds two segments and the send queue at least twice as many packet
  buffers as the send buffer segments; as many segments as the queue can hold exist; the low
  marks lie below what they are marks of; the receive window holds two segments, is within the
  scaled 16-bit range, is covered by the buffers of the packet pool, and is updated in steps
  inside it; and a pool buffer holds a full segment with its headers and fits the largest custom
  pool.\<close>
theorem tcp_options_fit:
  assumes "macros_as_documented lwip_min lwip_max align_size"
  shows "2 * ref_TCP_MSS \<le> ref_TCP_SND_BUF \<and>
    c_div (2 * ref_TCP_SND_BUF) ref_TCP_MSS \<le> ref_TCP_SND_QUEUELEN \<and>
    ref_TCP_SND_QUEUELEN \<le> ref_MEMP_NUM_TCP_SEG \<and>
    0 < ref_TCP_SNDLOWAT lwip_max lwip_min \<and> ref_TCP_SNDLOWAT lwip_max lwip_min < ref_TCP_SND_BUF \<and>
    ref_TCP_SNDQUEUELOWAT lwip_max < ref_TCP_SND_QUEUELEN \<and>
    2 * ref_TCP_MSS \<le> ref_TCP_WND \<and> ref_TCP_WND \<le> 0xffff * 2 ^ nat ref_TCP_RCV_SCALE \<and>
    0 < ref_TCP_WND_UPDATE_THRESHOLD lwip_min \<and> ref_TCP_WND_UPDATE_THRESHOLD lwip_min \<le> ref_TCP_WND \<and>
    ref_PBUF_LINK_HLEN + 40 + ref_TCP_MSS \<le> ref_PBUF_POOL_BUFSIZE align_size \<and>
    ref_TCP_WND \<le> ref_PBUF_POOL_SIZE * (ref_PBUF_POOL_BUFSIZE align_size - ref_PBUF_LINK_HLEN - 40) \<and>
    (\<exists>(n, size) \<in> set (lwip_malloc_pools ref_MEM_USE_POOLS). ref_PBUF_POOL_BUFSIZE align_size \<le> int size)"
proof -
  from assms have m: "lwip_min = min" "lwip_max = max"
    by (intro ext; simp add: macros_as_documented_def)+
  define k where "k = align_size 590"
  from assms have "590 \<le> k" "k < 594"
    using spec [of "\<lambda>n. 0 \<le> n \<longrightarrow> n \<le> align_size n \<and> align_size n < n + 4" 590]
    by (simp_all add: macros_as_documented_def ref_MEM_ALIGNMENT_def k_def)
  then show ?thesis
    by (simp add: m k_def [symmetric] c_arith lwip_malloc_pools_def ref_TCP_SND_BUF_def
        ref_TCP_MSS_def ref_TCP_SND_QUEUELEN_def ref_MEMP_NUM_TCP_SEG_def ref_TCP_SNDLOWAT_def
        ref_TCP_SNDQUEUELOWAT_def ref_TCP_WND_def ref_TCP_RCV_SCALE_def
        ref_TCP_WND_UPDATE_THRESHOLD_def ref_PBUF_LINK_HLEN_def ref_PBUF_POOL_BUFSIZE_def
        ref_PBUF_POOL_SIZE_def ref_PBUF_LINK_ENCAPSULATION_HLEN_def ref_ETH_PAD_SIZE_def
        ref_MEM_USE_POOLS_def)
qed

theorem tcp_options_fit_witness:
  "ref_TCP_SNDLOWAT max min < ref_TCP_SND_BUF \<and>
   ref_TCP_MSS + 54 \<le> ref_PBUF_POOL_BUFSIZE (\<lambda>n. (n + 3) div 4 * 4)"
proof -
  have "macros_as_documented min max (\<lambda>n. (n + 3) div 4 * 4)"
    by (auto simp: macros_as_documented_def ref_MEM_ALIGNMENT_def)
  from tcp_options_fit [OF this] show ?thesis
    by (simp add: ref_PBUF_LINK_HLEN_def ref_ETH_PAD_SIZE_def)
qed

end
