(* ===== verification/Frame_Size.thy ===== *)
theory Frame_Size
  imports Service Lwip_Opts
begin

text \<open>
  The largest TCP segment of \<open>cfg/lwipopts.h\<close> against the frame buffer of
  \<open>src/lwip_int.c\<close>.
\<close>

subsection \<open>Packets the module fills\<close>

definition frames_of :: "trace \<Rightarrow> u8 list list" where
  "frames_of t = concat (map (\<lambda>e. case e of Pbuf_take p bs \<Rightarrow> [bs] | _ \<Rightarrow> []) t)"

lemma frames_of_simps [simp]:
  "frames_of [] = []" "frames_of (t @ u) = frames_of t @ frames_of u"
  "frames_of (Pbuf_take p bs # t) = bs # frames_of t"
  "(\<And>p bs. e \<noteq> Pbuf_take p bs) \<Longrightarrow> frames_of (e # t) = frames_of t"
  by (simp_all add: frames_of_def split: event.split)

abbreviation same_frames :: "tcpip_state \<Rightarrow> tcpip_state \<Rightarrow> bool" where
  "same_frames s s' \<equiv> frames_of (tr s') = frames_of (tr s)"

lemma frames_then: "same_frames s t \<Longrightarrow> ensures m (same_frames t) \<Longrightarrow> ensures m (same_frames s)"
  by (cases m) simp_all

lemma callback_frames: "ensures (run_callback env cb s) (same_frames s)"
proof (cases cb)
  case (Cb_recv tpcb p err)
  then show ?thesis
    by (auto simp: run_callback_def tcpip_raw_recv_def Let_def tcpip_raw_close_def intro!: ensuresI)
next
  case (Cb_linkoutput i p)
  then show ?thesis
    by (auto simp: run_callback_def netif_output_def Let_def intro!: ensuresI split: if_splits)
next
  case (Cb_accept newpcb err)
  then show ?thesis by (simp add: run_callback_def tcpip_raw_accept_def Let_def)
qed (simp_all add: run_callback_def tcpip_raw_error_def tcpip_raw_connected_def netif_status_callback_def)

lemma callbacks_frames: "ensures (run_callbacks env cbs s) (same_frames s)"
proof (induction cbs arbitrary: s)
  case Nil
  then show ?case by simp
next
  case (Cons cb cbs)
  show ?case
    by (auto intro!: ensures_mono [OF callback_frames] intro: frames_then Cons.IH)
qed

lemma call_cbs_frames:
  "(\<And>p bs. e \<noteq> Pbuf_take p bs) \<Longrightarrow> ensures (call_cbs env e s) (same_frames s)"
  using callbacks_frames [of env "callbacks env (tr (emit e s))" "emit e s"]
  by (simp add: call_cbs_def Let_def)

lemma input_loop_frames: "ensures (input_loop env p MAX_TCPIP_LOCAL_ADDRESS 0 s) (same_frames s)"
  by (auto simp: input_loop.simps MAX_TCPIP_LOCAL_ADDRESS_def Let_def
      intro!: ensures_mono [OF call_cbs_frames])

lemma main_frames:
  assumes "core_inv s"
  shows "ensures (TcpIp_MainFunction env s) (\<lambda>s'. \<exists>new. frames_of (tr s') = frames_of (tr s) @ new \<and>
    (\<forall>bs \<in> set new. length bs \<le> 1500))"
proof -
  from assms have pkt: "length (Lwip_EthPkt s) = 1500" by (simp add: core_inv_def ETHERNET_MTU_def)
  have same: "ensures (call_cbs env Sys_check_timeouts t) (same_frames t)" for t
    by (rule call_cbs_frames) simp
  have last: "ensures (call_cbs env Sys_check_timeouts t) P" if "\<And>u. same_frames t u \<Longrightarrow> P u" for t P
    using same by (rule ensures_mono) (rule that)
  have loop: "ensures (input_loop env p MAX_TCPIP_LOCAL_ADDRESS 0 t)
      (\<lambda>u. ensures (call_cbs env Sys_check_timeouts u) P)" if "\<And>u. same_frames t u \<Longrightarrow> P u" for p t P
    using input_loop_frames by (rule ensures_mono) (intro last that; simp)
  show ?thesis
    using pkt
    by (auto simp: TcpIp_MainFunction_def lwip_int_main_def Let_def call_ptr_def
        split: prod.splits if_splits intro!: last loop)
qed

subsection \<open>Properties\<close>

text \<open>C34: a segment of the configured maximum size never reaches lwIP. The Ethernet header, the IP
  and TCP headers and \<open>TCP_MSS\<close> bytes of data are more than the 1500 bytes of the frame buffer,
  although the options take 1500 for the part after the Ethernet header: in every reachable
  state and whatever the driver does, each packet that one call of the periodic function fills
  is shorter than such a frame, and if the driver writes all of it, it writes past the buffer.\<close>
theorem full_size_segment_never_delivered:
  assumes "reach (sys_step env) socket_init s"
  shows "ensures (TcpIp_MainFunction env (core s)) (\<lambda>k. \<exists>new.
      frames_of (tr k) = frames_of (tr (core s)) @ new \<and>
      (\<forall>bs \<in> set new. int (length bs) < 14 + 20 + 20 + TCP_MSS)) \<and>
    (14 + 20 + 20 + TCP_MSS \<le> int (length (snd (ans_frame env (tr (core s) @ [Macphy_pkt_recv ETHERNET_MTU]))))
      \<longrightarrow> TcpIp_MainFunction env (core s) = Inl OutOfBounds)"
proof
  from sys.reach_inv [OF assms] have inv: "core_inv (core s)" by (rule sock_inv_core)
  show "ensures (TcpIp_MainFunction env (core s)) (\<lambda>k. \<exists>new.
      frames_of (tr k) = frames_of (tr (core s)) @ new \<and>
      (\<forall>bs \<in> set new. int (length bs) < 14 + 20 + 20 + TCP_MSS))"
    using main_frames [OF inv] by (rule ensures_mono) (fastforce simp: TCP_MSS_def)
  from inv have "length (Lwip_EthPkt (core s)) = 1500" by (simp add: core_inv_def ETHERNET_MTU_def)
  then show "14 + 20 + 20 + TCP_MSS \<le> int (length (snd (ans_frame env (tr (core s) @ [Macphy_pkt_recv ETHERNET_MTU]))))
      \<longrightarrow> TcpIp_MainFunction env (core s) = Inl OutOfBounds"
    by (simp add: TcpIp_MainFunction_def lwip_int_main_def Let_def TCP_MSS_def split: prod.split)
qed

theorem full_size_segment_never_delivered_witness:
  "TcpIp_MainFunction (demo_env\<lparr>ans_frame := (\<lambda>t. (1514, replicate 1514 0))\<rparr>) (core socket_init) = Inl OutOfBounds"
  using full_size_segment_never_delivered [OF reach_init,
      of "demo_env\<lparr>ans_frame := (\<lambda>t. (1514, replicate 1514 0))\<rparr>"]
  by (simp add: TCP_MSS_def)

end
