(* ===== verification/Api_Types.thy ===== *)
theory Api_Types
  imports Tcp_Core
begin

text \<open>
  The rest of the types of \<open>api/TcpIp.h\<close>, the values of every enumeration of the module, and
  the numbering of the connection states against the one of lwIP.
\<close>

subsection \<open>Types of the public header no function uses\<close>

datatype TcpIp_ProtocolType = TCPIP_IPPROTO_TCP | TCPIP_IPPROTO_UDP

primrec protocol_val :: "TcpIp_ProtocolType \<Rightarrow> int" where
  "protocol_val TCPIP_IPPROTO_TCP = 0x06"
| "protocol_val TCPIP_IPPROTO_UDP = 0x11"

datatype TcpIp_IpAddrStateType =
    TCPIP_IPADDR_STATE_ASSIGNED | TCPIP_IPADDR_STATE_ONHOLD | TCPIP_IPADDR_STATE_UNASSIGNED
  | TCPIP_IPADDR_STATE_MAX

datatype TcpIp_EventType =
    TCPIP_TCP_RESET | TCPIP_TCP_CLOSED | TCPIP_TCP_FIN_RECEIVED | TCPIP_UDP_CLOSED
  | TCPIP_TLS_HANDSHAKE_SUCCEEDED

datatype TcpIp_IpAddrAssignmentType =
    TCPIP_IPADDR_ASSIGNMENT_STATIC | TCPIP_IPADDR_ASSIGNMENT_LINKLOCAL_DOIP
  | TCPIP_IPADDR_ASSIGNMENT_DHCP | TCPIP_IPADDR_ASSIGNMENT_LINKLOCAL
  | TCPIP_IPADDR_ASSIGNMENT_IPV6_ROUTER | TCPIP_IPADDR_ASSIGNMENT_ALL

datatype TcpIp_ReturnType =
    TCPIP_E_OK | TCPIP_E_NOT_OK | TCPIP_E_PHYS_ADDR_MISS | TCPIP_E_PENDING

datatype TcpIp_ParamIdType =
    TCPIP_PARAMID_TCP_RXWND_MAX | TCPIP_PARAMID_FRAMEPRIO | TCPIP_PARAMID_TCP_NAGLE
  | TCPIP_PARAMID_TCP_KEEPALIVE | TCPIP_PARAMID_TTL | TCPIP_PARAMID_TCP_KEEPALIVE_TIME
  | TCPIP_PARAMID_TCP_KEEPALIVE_PROBES_MAX | TCPIP_PARAMID_TCP_KEEPALIVE_INTERVAL
  | TCPIP_PARAMID_TCP_OPTIONFILTER | TCPIP_PARAMID_PATHMTU_ENABLE | TCPIP_PARAMID_FLOWLABEL
  | TCPIP_PARAMID_DSCP | TCPIP_PARAMID_UDP_CHECKSUM | TCPIP_PARAMID_TLS_CONNECTION_ASSIGNMENT
  | TCPIP_PARAMID_TCP_RETRANSMIT_TIMEOUT | TCPIP_PARAMID_VENDOR_SPECIFIC

text \<open>Arrays of one, four and six words or bytes are lists.\<close>

record TcpIp_ArpCacheEntryType =
  InetAddr :: "u32 list"
  arp_PhysAddr :: "u8 list"
  arp_State :: u8

record TcpIp_NdpCacheEntryType =
  Inet6Addr :: "u32 list"
  ndp_PhysAddr :: "u8 list"
  ndp_State :: u8

text \<open>The measurement indices; the comments of the header give the reserved ranges.\<close>

definition TCPIP_MEAS_DROP_TCP :: u8 where "TCPIP_MEAS_DROP_TCP = 0x01"
definition TCPIP_MEAS_DROP_UDP :: u8 where "TCPIP_MEAS_DROP_UDP = 0x02"
definition TCPIP_MEAS_DROP_IPV4 :: u8 where "TCPIP_MEAS_DROP_IPV4 = 0x03"
definition TCPIP_MEAS_DROP_IPV6 :: u8 where "TCPIP_MEAS_DROP_IPV6 = 0x04"
definition TCPIP_MEAS_RESERVED_1 :: u8 where "TCPIP_MEAS_RESERVED_1 = 0x05"
definition TCPIP_MEAS_RESERVED_2 :: u8 where "TCPIP_MEAS_RESERVED_2 = 0x80"
definition TCPIP_MEAS_RESERVED_3 :: u8 where "TCPIP_MEAS_RESERVED_3 = 0xF0"
definition TCPIP_MEAS_ALL :: u8 where "TCPIP_MEAS_ALL = 0xFF"

text \<open>The domains of the configuration have explicit values.\<close>

primrec domain_val :: "TcpIpDomainType \<Rightarrow> int" where
  "domain_val TCPIP_AF_INET = 0x02"
| "domain_val TCPIP_AF_INET6 = 0x1c"
| "domain_val TCPIP_MAX_DOMAIN_TYPE = 0x1d"

subsection \<open>The constants of each enumeration, in the order of the source\<close>

definition protocols :: "TcpIp_ProtocolType list" where
  "protocols = [TCPIP_IPPROTO_TCP, TCPIP_IPPROTO_UDP]"

definition com_states :: "TcpIp_StateType list" where
  "com_states = [TCPIP_STATE_ONLINE, TCPIP_STATE_ONHOLD, TCPIP_STATE_OFFLINE, TCPIP_STATE_STARTUP,
     TCPIP_STATE_SHUTDOWN, TCPIP_STATE_MAX]"

definition addr_states :: "TcpIp_IpAddrStateType list" where
  "addr_states = [TCPIP_IPADDR_STATE_ASSIGNED, TCPIP_IPADDR_STATE_ONHOLD,
     TCPIP_IPADDR_STATE_UNASSIGNED, TCPIP_IPADDR_STATE_MAX]"

definition tcp_events :: "TcpIp_EventType list" where
  "tcp_events = [TCPIP_TCP_RESET, TCPIP_TCP_CLOSED, TCPIP_TCP_FIN_RECEIVED, TCPIP_UDP_CLOSED,
     TCPIP_TLS_HANDSHAKE_SUCCEEDED]"

definition addr_assignments :: "TcpIp_IpAddrAssignmentType list" where
  "addr_assignments = [TCPIP_IPADDR_ASSIGNMENT_STATIC, TCPIP_IPADDR_ASSIGNMENT_LINKLOCAL_DOIP,
     TCPIP_IPADDR_ASSIGNMENT_DHCP, TCPIP_IPADDR_ASSIGNMENT_LINKLOCAL,
     TCPIP_IPADDR_ASSIGNMENT_IPV6_ROUTER, TCPIP_IPADDR_ASSIGNMENT_ALL]"

definition return_codes :: "TcpIp_ReturnType list" where
  "return_codes = [TCPIP_E_OK, TCPIP_E_NOT_OK, TCPIP_E_PHYS_ADDR_MISS, TCPIP_E_PENDING]"

definition param_ids :: "TcpIp_ParamIdType list" where
  "param_ids = [TCPIP_PARAMID_TCP_RXWND_MAX, TCPIP_PARAMID_FRAMEPRIO, TCPIP_PARAMID_TCP_NAGLE,
     TCPIP_PARAMID_TCP_KEEPALIVE, TCPIP_PARAMID_TTL, TCPIP_PARAMID_TCP_KEEPALIVE_TIME,
     TCPIP_PARAMID_TCP_KEEPALIVE_PROBES_MAX, TCPIP_PARAMID_TCP_KEEPALIVE_INTERVAL,
     TCPIP_PARAMID_TCP_OPTIONFILTER, TCPIP_PARAMID_PATHMTU_ENABLE, TCPIP_PARAMID_FLOWLABEL,
     TCPIP_PARAMID_DSCP, TCPIP_PARAMID_UDP_CHECKSUM, TCPIP_PARAMID_TLS_CONNECTION_ASSIGNMENT,
     TCPIP_PARAMID_TCP_RETRANSMIT_TIMEOUT, TCPIP_PARAMID_VENDOR_SPECIFIC]"

definition domains :: "TcpIpDomainType list" where
  "domains = [TCPIP_AF_INET, TCPIP_AF_INET6, TCPIP_MAX_DOMAIN_TYPE]"

definition addr_types :: "TcpIpAddressType list" where
  "addr_types = [TCPIP_UNICAST, TCPIP_ANYCAST, TCPIP_MULTCAST, TCPIP_MAX_ADDR_TYPE]"

definition assn_methods :: "TcpIpAssignmentMethod list" where
  "assn_methods = [TCPIP_STATIC, TCPIP_DHCP, TCPIP_LINKLOCAL, TCPIP_IPV6_ROUTER,
     TCPIP_LINKLOCAL_DOIP, TCPIP_MAX_ASSN_METHOD]"

definition assn_triggers :: "TcpIpAssignmentTrigger list" where
  "assn_triggers = [TCPIP_MANUAL, TCPIP_AUTOMATIC, TCPIP_MAX_ASSN_TRIGGER]"

definition assn_lifetimes :: "TcpIpAssignmentLifetime list" where
  "assn_lifetimes = [TCPIP_FORGET, TCPIP_STORE, TCPIP_MAX_ASSN_LIFETIME]"

definition pool_states :: "tcpip_mpool_state_t list" where
  "pool_states = [MPOOL_FREE, MPOOL_ACQUIRED, MPOOL_DATA_FILLED, MAX_MPOOL_STATE]"

definition conn_states :: "TcpIp_ConnState list" where
  "conn_states = [TCPIP_CLOSED, TCPIP_BIND, TCPIP_LISTEN, TCPIP_ACCEPT, TCPIP_SYN_SENT,
     TCPIP_SYN_RCVD, TCPIP_ESTABLISHED, TCPIP_FIN_WAIT_1, TCPIP_FIN_WAIT_2, TCPIP_CLOSE_WAIT,
     TCPIP_CLOSING, TCPIP_LAST_ACK, TCPIP_TIME_WAIT]"

interpretation enum_protocol: c_enum protocol_val protocols
proof
  show "e \<in> set protocols" for e by (cases e) (simp_all add: protocols_def)
qed (simp add: protocols_def)

interpretation enum_com_state: c_enum "enum_pos com_states" com_states
  by (rule enum_pos_c_enum, simp add: com_states_def) (case_tac e; simp add: com_states_def)

interpretation enum_addr_state: c_enum "enum_pos addr_states" addr_states
  by (rule enum_pos_c_enum, simp add: addr_states_def) (case_tac e; simp add: addr_states_def)

interpretation enum_tcp_event: c_enum "enum_pos tcp_events" tcp_events
  by (rule enum_pos_c_enum, simp add: tcp_events_def) (case_tac e; simp add: tcp_events_def)

interpretation enum_addr_assignment: c_enum "enum_pos addr_assignments" addr_assignments
  by (rule enum_pos_c_enum, simp add: addr_assignments_def) (case_tac e; simp add: addr_assignments_def)

interpretation enum_return_code: c_enum "enum_pos return_codes" return_codes
  by (rule enum_pos_c_enum, simp add: return_codes_def) (case_tac e; simp add: return_codes_def)

interpretation enum_param_id: c_enum "enum_pos param_ids" param_ids
  by (rule enum_pos_c_enum, simp add: param_ids_def) (case_tac e; simp add: param_ids_def)

interpretation enum_domain: c_enum domain_val domains
proof
  show "e \<in> set domains" for e by (cases e) (simp_all add: domains_def)
qed (simp add: domains_def)

interpretation enum_addr_type: c_enum "enum_pos addr_types" addr_types
  by (rule enum_pos_c_enum, simp add: addr_types_def) (case_tac e; simp add: addr_types_def)

interpretation enum_assn_method: c_enum "enum_pos assn_methods" assn_methods
  by (rule enum_pos_c_enum, simp add: assn_methods_def) (case_tac e; simp add: assn_methods_def)

interpretation enum_assn_trigger: c_enum "enum_pos assn_triggers" assn_triggers
  by (rule enum_pos_c_enum, simp add: assn_triggers_def) (case_tac e; simp add: assn_triggers_def)

interpretation enum_assn_lifetime: c_enum "enum_pos assn_lifetimes" assn_lifetimes
  by (rule enum_pos_c_enum, simp add: assn_lifetimes_def) (case_tac e; simp add: assn_lifetimes_def)

interpretation enum_pool_state: c_enum "enum_pos pool_states" pool_states
  by (rule enum_pos_c_enum, simp add: pool_states_def) (case_tac e; simp add: pool_states_def)

interpretation enum_conn_state: c_enum "\<lambda>x. int (conn_val x)" conn_states
proof
  show "e \<in> set conn_states" for e by (cases e) (simp_all add: conn_states_def)
qed (simp add: conn_states_def)

subsection \<open>Properties\<close>

lemmas enum_roundtrips =
  enum_com_state.roundtrip [OF enum_pos_range] enum_addr_state.roundtrip [OF enum_pos_range]
  enum_tcp_event.roundtrip [OF enum_pos_range] enum_addr_assignment.roundtrip [OF enum_pos_range]
  enum_return_code.roundtrip [OF enum_pos_range] enum_param_id.roundtrip [OF enum_pos_range]
  enum_addr_type.roundtrip [OF enum_pos_range] enum_assn_method.roundtrip [OF enum_pos_range]
  enum_assn_trigger.roundtrip [OF enum_pos_range] enum_assn_lifetime.roundtrip [OF enum_pos_range]
  enum_pool_state.roundtrip [OF enum_pos_range]
  enum_protocol.roundtrip enum_domain.roundtrip enum_conn_state.roundtrip

lemmas enum_lists =
  protocols_def com_states_def addr_states_def tcp_events_def addr_assignments_def return_codes_def
  param_ids_def domains_def addr_types_def assn_methods_def assn_triggers_def assn_lifetimes_def
  pool_states_def conn_states_def

text \<open>The values of every enumeration of the module, as C assigns them, can be decoded: the
  value of a constant gives the constant back, a decoded value is the value of its constant, and
  each fits a byte; the domains of the configuration agree with the macros of the API.\<close>
theorem enum_codes_decode:
  "codes_roundtrip protocol_val protocols \<and> codes_roundtrip domain_val domains \<and>
   codes_roundtrip (\<lambda>x. int (conn_val x)) conn_states \<and>
   codes_roundtrip (enum_pos com_states) com_states \<and>
   codes_roundtrip (enum_pos addr_states) addr_states \<and>
   codes_roundtrip (enum_pos tcp_events) tcp_events \<and>
   codes_roundtrip (enum_pos addr_assignments) addr_assignments \<and>
   codes_roundtrip (enum_pos return_codes) return_codes \<and>
   codes_roundtrip (enum_pos param_ids) param_ids \<and>
   codes_roundtrip (enum_pos addr_types) addr_types \<and>
   codes_roundtrip (enum_pos assn_methods) assn_methods \<and>
   codes_roundtrip (enum_pos assn_triggers) assn_triggers \<and>
   codes_roundtrip (enum_pos assn_lifetimes) assn_lifetimes \<and>
   codes_roundtrip (enum_pos pool_states) pool_states \<and>
   domain_val TCPIP_AF_INET = uint TCPIP_AF_INET_value \<and>
   domain_val TCPIP_AF_INET6 = uint TCPIP_AF_INET6_value"
  by (intro conjI enum_roundtrips)
    (simp_all add: enum_lists TCPIP_AF_INET_value_def TCPIP_AF_INET6_value_def)

text \<open>The enumeration of the connection states is not the one of lwIP, though the module
  compares and returns lwIP's values under its names. \<open>TcpIp_getConnState\<close> returns what lwIP
  has in the connection: with lwIP's documented numbering (listening 1, established 4) a caller
  that decodes it by the module's enumeration takes a listening connection for bound and an
  established one for one whose request was sent; and \<open>TcpIp_TcpListen\<close>, which means to refuse
  from listening on, listens again on a connection that is already listening.\<close>
theorem connection_state_names_shifted:
  assumes "tcpip_raw_pcb s = Some a" and "pcb_state_at env (tr s) a = Some v"
  shows "TcpIp_getConnState env i s = Inr v \<and>
    (v = 1 \<longrightarrow> enum_decode (\<lambda>x. int (conn_val x)) conn_states (int v) = Some TCPIP_BIND \<and>
       returns (TcpIp_TcpListen env i m s) (\<lambda>(r, s'). r = E_OK \<and> Tcp_listen (Some a) \<in> set (tr s'))) \<and>
    (v = 4 \<longrightarrow> enum_decode (\<lambda>x. int (conn_val x)) conn_states (int v) = Some TCPIP_SYN_SENT \<and>
       TcpIp_TcpListen env i m s = Inr (E_NOT_OK, s))"
  using assms
  by (auto simp: TcpIp_getConnState_def TcpIp_TcpListen_def call_ptr_def Let_def
      enum_conn_state.decode_iff)

theorem connection_state_names_shifted_witness:
  "TcpIp_getConnState demo_env 0 (tcpip_init\<lparr>tcpip_raw_pcb := Some 1\<rparr>) = Inr 4 \<and>
   enum_decode (\<lambda>x. int (conn_val x)) conn_states 4 = Some TCPIP_SYN_SENT"
  using connection_state_names_shifted [of "tcpip_init\<lparr>tcpip_raw_pcb := Some 1\<rparr>" 1 demo_env 4 0]
  by (simp add: demo_env_def)

end
