(* ===== verification/Platform.thy ===== *)
theory Platform
  imports Prelude
begin

text \<open>
  \<open>cfg/arch/cc.h\<close> and \<open>cfg/arch/sys_arch.h\<close>, through which lwIP is built for the platform: the
  integer types and the formats they are printed with, and the diagnostic macros, as what they
  hand to the operating system's log. lwIP passes the arguments of a print in parentheses, so that
  the text the macro puts its parameter into is a comma expression.
\<close>

subsection \<open>Types and constants\<close>

text \<open>A type is its width; the signed ones are read with \<open>sint\<close>.\<close>

type_synonym u8_t = "8 word"
type_synonym s8_t = "8 word"
type_synonym u16_t = "16 word"
type_synonym s16_t = "16 word"
type_synonym u32_t = "32 word"
type_synonym s32_t = "32 word"
type_synonym LWIP_ERR_T = int
type_synonym sys_prot_t = cptr
type_synonym sys_thread_t = cptr

definition SYS_MBOX_NULL :: cptr where "SYS_MBOX_NULL = None"
definition SYS_SEM_NULL :: cptr where "SYS_SEM_NULL = None"
definition LWIP_NO_CTYPE_H :: int where "LWIP_NO_CTYPE_H = 1"

text \<open>The compiler's byte order, if it has set one, and else the header's.\<close>

datatype byte_order = LITTLE_ENDIAN | BIG_ENDIAN

definition BYTE_ORDER :: "byte_order option \<Rightarrow> byte_order" where
  "BYTE_ORDER predefined = (case predefined of None \<Rightarrow> LITTLE_ENDIAN | Some b \<Rightarrow> b)"

definition PACK_STRUCT_FIELD :: "'a \<Rightarrow> 'a" where "PACK_STRUCT_FIELD x = x"

subsection \<open>Formats\<close>

definition U16_F :: string where "U16_F = ''hu''"
definition S16_F :: string where "S16_F = ''hd''"
definition X16_F :: string where "X16_F = ''hx''"
definition U32_F :: string where "U32_F = ''u''"
definition S32_F :: string where "S32_F = ''d''"
definition X32_F :: string where "X32_F = ''x''"

text \<open>
  The number a conversion of C's \<open>printf\<close> shows for an argument of 32 bits: the length
  \<open>h\<close> converts it to a short, \<open>d\<close> reads it as signed, \<open>u\<close> and \<open>x\<close> as unsigned.
\<close>

definition shown :: "string \<Rightarrow> u32 \<Rightarrow> int option" where
  "shown fmt a =
     (if fmt = ''hu'' \<or> fmt = ''hx'' then Some (uint (ucast a :: u16))
      else if fmt = ''hd'' then Some (sint (ucast a :: u16))
      else if fmt = ''u'' \<or> fmt = ''x'' then Some (uint a)
      else if fmt = ''d'' then Some (sint a)
      else None)"

text \<open>
  Each format shows every value of its type as it is, after the promotion of the argument: an
  unsigned short by zeros, a signed one by its sign.
\<close>

lemma formats_show_values:
  "shown U16_F (ucast (a :: u16_t)) = Some (uint a)" "shown X16_F (ucast a) = Some (uint a)"
  "shown S16_F (scast (b :: s16_t)) = Some (sint b)"
  "shown U32_F (c :: u32_t) = Some (uint c)" "shown X32_F c = Some (uint c)"
  "shown S32_F (d :: s32_t) = Some (sint d)"
proof -
  have last: "n = 15" if "15 \<le> n" "n < 16" for n :: nat
    using that by simp
  have "(ucast (ucast a :: u32) :: u16) = a" "(ucast (scast b :: u32) :: u16) = b"
    by (rule bit_word_eqI; auto simp: bit_simps min_def dest: last)+
  then show "shown U16_F (ucast a) = Some (uint a)" "shown X16_F (ucast a) = Some (uint a)"
    "shown S16_F (scast b) = Some (sint b)" "shown U32_F c = Some (uint c)"
    "shown X32_F c = Some (uint c)" "shown S32_F d = Some (sint d)"
    by (simp_all add: shown_def U16_F_def X16_F_def S16_F_def U32_F_def X32_F_def S32_F_def)
qed

subsection \<open>The macros\<close>

text \<open>An argument of a print: a string, or a number.\<close>

datatype print_arg = Str_arg string | Num_arg int

datatype log_line =
    Diag_msg string                    \<comment> \<open>\<open>TcpIp diag msg: "%s"\<close>\<close>
  | Assert_failed string nat string    \<comment> \<open>\<open>Assert "%s" failed at line %d in %s\<close>\<close>
  | Must_be_aborted                    \<comment> \<open>\<open>ERROR: program must be aborted!!\<close>\<close>

type_synonym log = "log_line list"

text \<open>The value of a comma expression is its last operand; a number is no address of a string.\<close>

definition LWIP_PLATFORM_DIAG :: "print_arg list \<Rightarrow> log \<Rightarrow> log result" where
  "LWIP_PLATFORM_DIAG x l =
     (case last x of
        Str_arg m \<Rightarrow> Inr (l @ [Diag_msg m])
      | Num_arg n \<Rightarrow> Inl (if n = 0 then NullDeref else DanglingRead))"

definition LWIP_PLATFORM_ASSERT :: "string \<Rightarrow> nat \<Rightarrow> string \<Rightarrow> log \<Rightarrow> log" where
  "LWIP_PLATFORM_ASSERT x line file l = l @ [Assert_failed x line file, Must_be_aborted]"

subsection \<open>What lwIP gets from them\<close>

text \<open>
  A message without arguments is logged; with arguments, the format and all but the last argument
  are dropped, and a number at the end is read as an address.
\<close>

lemma diag_logs_last:
  "LWIP_PLATFORM_DIAG [Str_arg m] l = Inr (l @ [Diag_msg m])"
  "LWIP_PLATFORM_DIAG (fmt # args @ [Str_arg m]) l = Inr (l @ [Diag_msg m])"
  "returns (LWIP_PLATFORM_DIAG (fmt # args @ [Num_arg n]) l) P = False"
  by (simp_all add: LWIP_PLATFORM_DIAG_def)

text \<open>A failed assertion says that the program must be aborted, and the program goes on.\<close>

lemma assert_goes_on:
  "fold (\<lambda>(x, line, file). LWIP_PLATFORM_ASSERT x line file) failed l =
     l @ concat (map (\<lambda>(x, line, file). [Assert_failed x line file, Must_be_aborted]) failed)"
  by (induction failed arbitrary: l) (auto simp: LWIP_PLATFORM_ASSERT_def)

end
