(* ===== verification/Spec2Isabelle.thy ===== *)
theory Spec2Isabelle
  imports Results Readers Contract Conn_Race Race_Losses Faults Delivery Handover Frame_Size Socket_Life Provenance Api_Types Sys_Arch Platform
begin

text \<open>
  A model of NammaTcpIp, the TCP/IP module of an AUTOSAR-like system: a thin layer over the
  lwIP stack, with an AUTOSAR interface, a socket table and POSIX-like calls on top, and lwIP's
  interface to an Ethernet driver below. Everything the repository's C functions do is
  modelled; lwIP, the driver and the operating system are not in the repository and are a
  parameter.

  \<^bold>\<open>How the program works.\<close> The operating system calls \<open>TcpIp_Init\<close> once and
  \<open>TcpIp_MainFunction\<close> periodically (\<open>src/TcpIp.c\<close>, forwarding to
  \<open>src/lwip_int.c\<close>). The periodic function asks the driver for a frame, copies it to a packet
  buffer and passes it to lwIP, which calls \<open>tcpip_raw_recv\<close> back for data of the one
  connection the module keeps (\<open>tcpip_raw_pcb\<close>). The callback acknowledges the data, puts
  the packet's address in the receive queue (\<open>push_to_rx_ctrl_blk\<close>, whose nodes come from the
  pool of \<open>src/tcpip_mpool.c\<close>) and gives the packet back. The application calls
  \<open>recv\<close> (\<open>src/socket.c\<close>), which goes through the socket table
  (\<open>src/tcpip_extensions.c\<close>) to \<open>TcpIp_recv\<close>, which pops the queue and copies the bytes
  to the caller.

  \<^bold>\<open>Theories.\<close>
  \<^item> \<open>Prelude\<close>: integer types, faults, results, total and partial judgements on results,
    reachability, the locales for invariants, for losses that are never made good and for
    refinement mappings between step relations, and the locale of C enumerations.
  \<^item> \<open>Mpool\<close>: \<open>src/tcpip_mpool.h\<close> and \<open>src/tcpip_mpool.c\<close>; its contract is the
    locale \<open>slot_allocator\<close>, interpreted on the pool's own operations.
  \<^item> \<open>Mailbox\<close>: the abstract one-place box and the FIFO list, and the locale
    \<open>mailbox\<close>, in which every run of a buffer with the laws of the box is related to both.
  \<^item> \<open>Rx_Queue\<close>: the control block of \<open>src/TcpIp.c\<close> (lines 38 to 118), an
    interpretation of \<open>mailbox\<close>.
  \<^item> \<open>Rx_Race\<close>: the push and the pop of the control block again, one access to a shared
    variable at a time, and every interleaving of the two.
  \<^item> \<open>Rx_Lock\<close>: the same under a lock, which the sources do not have: sequences of whole
    calls. \<open>Race_Losses\<close>: what is lost for good without it.
  \<^item> \<open>Handover\<close>: the receive callback and the application's receive on one packet, step by
    step, and every interleaving of the two.
  \<^item> \<open>Readers\<close>: any number of pops against each other, as sockets used by several tasks make
    them.
  \<^item> \<open>Conn_Race\<close>: the functions that use \<open>tcpip_raw_pcb\<close>, one access at a time, with the
    accept callback between any two.
  \<^item> \<open>Config\<close>: the types of \<open>api/TcpIp.h\<close>, the generated configuration in
    \<open>cfg/TcpIp_cfg.h\<close> and \<open>cfg/TcpIp_cfg.c\<close>, and the connection states of
    \<open>src/tcpip_extensions.h\<close>, ordered as C orders them.
  \<^item> \<open>Api_Types\<close>: the remaining types of \<open>api/TcpIp.h\<close>, the values of every
    enumeration, each an interpretation of \<open>c_enum\<close>.
  \<^item> \<open>Lwip_Opts\<close>: the options of \<open>cfg/lwipopts.h\<close> and
    \<open>cfg/lwipopts_reference.h\<close>, the pools of \<open>cfg/lwippools.h\<close>.
  \<^item> \<open>Lwip_Env\<close>: the calls into the environment, as events, and its answers.
  \<^item> \<open>Tcp_Core\<close>: the rest of \<open>src/TcpIp.c\<close>, but for its last two functions.
  \<^item> \<open>Lwip_Int\<close>: \<open>src/lwip_int.c\<close>, with \<open>TcpIp_Init\<close> and
    \<open>TcpIp_MainFunction\<close>.
  \<^item> \<open>Sys_Arch\<close>: \<open>src/sys_arch.c\<close>.
  \<^item> \<open>Socket_Ext\<close>: \<open>src/tcpip_extensions.h\<close> and \<open>src/tcpip_extensions.c\<close>; what the
    six operations on descriptors have in common is the locale \<open>fd_guarded\<close>.
  \<^item> \<open>Socket_Api\<close>: \<open>src/socket.c\<close>.
  \<^item> \<open>System\<close>: one operation for each function that can change state, the step relations
    \<open>sys_step\<close> (all of them) and \<open>app_step\<close> (without the poll loop), runs of calls.
  \<^item> \<open>Effects\<close>: what each call does to the table and to the core; without its table the
    module refines the transition system of the core's functions (\<open>core_view\<close>).
  \<^item> \<open>Contract\<close>: the abstract service that the module refines, and the locale
    \<open>callback_relation\<close> of what the functions that run callbacks keep.
  \<^item> \<open>Service\<close>: the calls that a batch of callbacks makes, and what the periodic function and
    the initialisation do whatever lwIP calls back while they run.
  \<^item> \<open>Faults\<close>: the table of the faults each call can have, exact for environments that keep
    to what is documented (\<open>documented\<close>), and the faults in addition when they do not.
  \<^item> \<open>Delivery\<close>: a stream of segments from the wire to a reader that keeps up.
  \<^item> \<open>Provenance\<close>: where the connection and the waiting packet come from, in every
    reachable state (collection \<open>held_keeps\<close>).
  \<^item> \<open>Frame_Size\<close>: the frame buffer against the configured segment size.
  \<^item> \<open>Socket_Life\<close>: the life cycle of one descriptor, which the module refines (an
    interpretation of \<open>refinement_map\<close>), and receiving and sending without sockets.
  \<^item> \<open>Results\<close>: what each socket call returns and changes.
  \<^item> \<open>Platform\<close>: \<open>cfg/arch/cc.h\<close> and \<open>cfg/arch/sys_arch.h\<close>: types, formats and
    diagnostic macros.
  This theory holds the properties that span components; those of one component are at the end
  of its theory. Each has a concrete instance beside it, the theorem of the same name that ends
  in \<open>_witness\<close>, where it has hypotheses.

  \<^bold>\<open>State.\<close> The static variables of the C files are records: \<open>rx_state\<close> (the pool and
  the control block) inside \<open>tcpip_state\<close> (with \<open>tcpip_raw_pcb\<close>, the frame buffer
  \<open>Lwip_EthPkt\<close>, and the trace of calls made into the environment) inside
  \<open>socket_state\<close> (with the table \<open>TcpIp_Socket_Conn\<close> and its counter). A function of
  the code is a HOL function on the state; its result is \<open>Inr\<close> of the returned value and the
  new state, or \<open>Inl\<close> of a fault: a dereference of NULL, a read of memory that was given back,
  an access out of bounds, an overflow of a signed integer, or a loop that never ends. A call
  that is given a buffer and a length (a write to lwIP, a frame to the driver, the copies of a frame and of the
  hardware address) reads as many bytes, so that a shorter buffer is an access out of bounds. Constants
  and definitions have the names of the C code, with a suffix where HOL or its library has the
  name.

  \<^bold>\<open>The environment.\<close> The record \<open>lwip_env\<close> answers each call with a function of the
  trace, so that it can react to everything that was called before, and says what it calls back
  while it handles a call, and which memory of its own is readable when. Nothing is assumed of
  it: a property that depends on its behaviour says so in its hypotheses. Callbacks are run
  inside the calls during which lwIP delivers packets, runs timers or changes an interface:
  the input function of an interface, the timer check, and the calls of the initialisation.

  \<^bold>\<open>Pointers.\<close> A pointer to a pool node is NULL or an offset from the pool's start, in units
  of nodes and possibly outside the pool; a pointer to an object of lwIP is NULL or an abstract
  address. A buffer of the caller is NULL or the list of its bytes.

  \<^bold>\<open>Loops.\<close> Counted loops are functions with a measure; the walk to the end of the receive
  list and the spin loop of the accept condition may run forever in C, and are partial functions
  in the option monad, \<open>None\<close> being a run that never ends. The queue's invariant shows that
  the walk ends in every reachable state; \<open>accept_condition_returns_iff\<close> says when the spin
  loop does. The runs of one call in single steps, \<open>push_exec\<close> and \<open>pop_exec\<close>, have a bound
  on the steps; twelve steps are enough for a push (the head, at most five slots, the six
  accesses that take, count, fill and link the node) and seven for a pop, and more change
  nothing: \<open>steps_equal_calls\<close> is stated for every larger bound. No other fuel is used.

  \<^bold>\<open>Concurrency.\<close> The periodic function and the application run in different tasks. In
  the step relations of \<open>System\<close> the calls of a run follow each other. In \<open>Rx_Race\<close> a
  push and a pop overlap: a step is one read or write of a shared variable, \<open>++\<close> and \<open>--\<close>
  being a read and a write, and the scheduler is arbitrary. One push and one pop at a time are
  assumed there, as lwIP runs in one task; \<open>Readers\<close> has any number of pops. The scheduler
  does not reorder the accesses of one call.
  \<open>locked_step\<close> restricts the schedules to those in which a call starts only while the other
  side is idle; its states between calls are those of the calls as functions. In
  \<open>Conn_Race\<close> the accept callback, which accesses \<open>tcpip_raw_pcb\<close> once, runs between
  two steps of a bind, a listen, a send or a close; alone, five steps are enough for each. In
  \<open>Handover\<close> the callback and the receive overlap, with the push and the pop as one step
  each; run alone, the steps are \<open>tcpip_raw_recv\<close> and \<open>TcpIp_recv\<close>
  (\<open>give_equals_call\<close>, and \<open>take_equals_call\<close> for at least 65538 steps: the pop, the length,
  at most 65535 bytes and the return).

  \<^bold>\<open>What the lemmas show.\<close> The pool hands out each of its five slots once. The receive queue
  is a one-place mailbox, not a FIFO, because a pushed node is never linked to the list; it is
  a FIFO for a reader that keeps up, and loses a slot for every message pushed on a waiting one,
  down to the last slot. Interleaved, the two operations stay inside the pool and keep the
  order of the packets (\<open>race_inv\<close>), and each takes a bounded number of steps, but a pop
  between the counter and the link of a push strands the packet, a pop between the first read and
  the allocation of a push costs a slot, and a write of the counter can be lost. The core keeps
  the invariant \<open>core_inv\<close> (queue, frame buffer, no
  close before the callbacks are removed), each operation in a lemma of the collection
  \<open>core_keeps\<close>; the sockets keep \<open>sock_inv\<close> (collection \<open>sock_keeps\<close>), and without
  the poll loop also that every entry is closed (\<open>closed_keeps\<close>). With several readers no schedule
  loses the packet that waits, but all of them can get it, which takes the counter past zero and
  gives a slot back that is in use again. The functional lemmas give
  each operation's result on each branch, error branches included. \<open>batch_events\<close> is
  the list of calls that a batch of callbacks makes, and \<open>after_call\<close> the trace after a call with
  what it calls back; with them the traces of the periodic function and of the initialisation are
  exact. \<open>read_packet\<close> is what a receive gives for a packet, by what lwIP's memory holds at that
  moment: nothing is assumed of the memory of a packet that was given back. \<open>faults_in\<close> bounds the
  faults of a call; \<open>can_fault\<close> shows that a fault of the table happens, with a history that
  starts with the initialisation and a documented environment.

  \<^bold>\<open>Choices where the sources do not compile or leave something open.\<close>
  \<open>src/tcpip_extensions.c\<close> uses names it does not declare: \<open>retval\<close> in two functions
  (only assigned to, so it is left out), a parameter of
  \<open>OS_WaitEvent_Interruptable\<close> whose type differs from the header's (unused), the variable \<open>i\<close> in the condition of the poll loop and
  the function \<open>TcpIp_TcpState\<close> (both are parameters of the model). The initial value the
  header gives to a member of the table's structure is taken as the value of every entry at the
  start. Log output of the C functions is not modelled, but the memory reads of its arguments are, where they can
  fault, as the log level of the sources keeps them in.

  \<^bold>\<open>Not modelled.\<close> The packing attribute and the pointer-sized integer of
  \<open>cfg/arch/cc.h\<close>, which fix the layout of structures outside the repository; prototypes and include lines; calls that overlap
  other than a push with a pop, pops with each other, a receive callback with a receive, and an accept callback with
  the functions that use the connection; reordering of memory
  accesses by the processor; build files.
\<close>

subsection \<open>The module in every reachable state\<close>

text \<open>C1: in every state the module can be driven into, by any calls in any order and any
  behaviour of lwIP, the driver and the operating system: pushing to the receive queue and
  popping from it come back, the queue's counter is at most five and no NULL packet waits, every
  close of a connection directly follows the removal of its callbacks, the frame buffer and the
  socket table have their declared sizes, and every entry's identifier is its descriptor.\<close>
theorem reachable_states_safe:
  assumes "reach (sys_step env) socket_init s"
  shows "(\<forall>p. \<exists>r. push_to_rx_ctrl_blk p (rx (core s)) = Inr r) \<and>
    (\<exists>m r. pop_pbuf_from_rx_ctrl_blk (rx (core s)) = Inr (m, r)) \<and>
    unat (rx_buf_cnt (TcpIp_Rx_CtrlBlk (rx (core s)))) \<le> 5 \<and>
    rx_content (rx (core s)) \<noteq> Some None \<and> closes_clean (tr (core s)) \<and>
    length (Lwip_EthPkt (core s)) = 1500 \<and> length (TcpIp_Socket_Conn s) = 512 \<and>
    0 \<le> TcpIp_No_Socket_Conn s \<and>
    (\<forall>c \<in> set (TcpIp_Socket_Conn s). 0 \<le> SocketFd c \<and> SocketFd c < 512 \<and> SocketId c = of_int (SocketFd c))"
proof -
  from sys.reach_inv [OF assms] have inv: "sock_inv s" .
  then have k: "core_inv (core s)" by (rule sock_inv_core)
  then have rx: "rx_inv (rx (core s))" by (rule core_inv_rx)
  have cnt: "unat (rx_buf_cnt (TcpIp_Rx_CtrlBlk (rx (core s)))) \<le> 5"
    using rx rx_owned_card [OF rx] by (simp add: rx_inv_def TCPIP_MEM_POOL_SIZE_def)
  from inv k cnt pop_inv [OF rx] push_eq [OF rx] show ?thesis
    by (auto simp: sock_inv_def core_inv_def entry_wf_def ETHERNET_MTU_def returns_iff)
qed

theorem reachable_states_safe_witness:
  "closes_clean (tr (core socket_init)) \<and> length (TcpIp_Socket_Conn socket_init) = 512"
  using reachable_states_safe [of demo_env socket_init, OF reach_init] by blast

text \<open>Which faults a socket call can have, on a descriptor inside the table in any reachable
  state: binding and accepting have none, opening only the overflow of the connection counter,
  listening only a read of a connection lwIP has given back, receiving only a read of a released
  packet or a copy past a buffer, sending only a read of no connection or of one given back, or
  past the end of the caller's buffer.\<close>
theorem faults_of_socket_calls:
  assumes "reach (sys_step env) socket_init s" and "0 \<le> fd" and "fd < 512"
  shows "bind_call env fd port s \<noteq> Inl f \<and> accept_call fd s \<noteq> Inl f \<and>
    (socket_call fd s = Inl f \<longrightarrow> f = IntOverflow) \<and>
    (listen_call env fd s = Inl f \<longrightarrow> f = DanglingRead) \<and>
    (recv_call env fd data n s = Inl f \<longrightarrow> f \<in> {DanglingRead, OutOfBounds}) \<and>
    (send_call env fd data n s = Inl f \<longrightarrow> f \<in> {NullDeref, DanglingRead, OutOfBounds})"
proof -
  from sys.reach_inv [OF assms(1)] have inv: "sock_inv s" .
  with assms(2,3) have fd: "valid_fd fd s" by (simp add: valid_fd_def sock_inv_def)
  from socket_call_faults [OF fd] sock_inv_core [OF inv] show ?thesis by blast
qed

theorem faults_of_socket_calls_witness:
  "\<forall>f. bind_call demo_env 3 80 socket_init \<noteq> Inl f \<and>
     (send_call demo_env 3 (Some [1]) 1 socket_init = Inl f \<longrightarrow> f \<in> {NullDeref, DanglingRead, OutOfBounds})"
  using faults_of_socket_calls [of demo_env socket_init 3, OF reach_init] by auto

text \<open>C26: without the poll loop, which nothing in the sources calls, no socket ever leaves the closed
  state: after any calls of the other functions, in any order, and under any behaviour of
  lwIP, listening and accepting fail with -1 and receiving and sending give 0 and change
  nothing, even after a successful bind and with an established connection.\<close>
theorem sockets_stay_closed:
  assumes "reach (app_step env) socket_init s" and "0 \<le> fd" and "fd < 512"
  shows "TcpState (TcpIp_Socket_Conn s ! nat fd) = TCPIP_CLOSED \<and>
    listen_call env fd s = Inr (-1, s) \<and> accept_call fd s = Inr (-1, s) \<and>
    recv_call env fd data n s = Inr (0, data, s) \<and> send_call env fd data n s = Inr (0, s)"
proof -
  from app.reach_inv [OF assms(1)] have inv: "sock_inv s" "all_closed s" by simp_all
  with assms(2,3) have fd: "valid_fd fd s" by (simp add: valid_fd_def sock_inv_def)
  from closed_valid [OF inv(2) fd] closed_at [OF inv(2) fd] show ?thesis
    by (simp add: listen_call_def accept_call_def recv_call_def send_call_def)
qed

theorem sockets_stay_closed_witness: "listen_call demo_env 3 socket_init = Inr (-1, socket_init)"
  using sockets_stay_closed [of demo_env socket_init 3, OF reach_init] by auto



text \<open>C33: opening is counted, not entered. Opening one descriptor \<open>n\<close> times from the start, for
  any \<open>n\<close> from 513 up to the largest \<open>int\<close>, returns and leaves the connection counter at
  \<open>n\<close>, and the poll loop, which polls the entries from 0 up to the counter, then leaves the
  table.\<close>
theorem reopened_socket_breaks_poll_loop:
  assumes "0 \<le> fd" and "fd < 512" and "512 < n" and "n < 2 ^ 31"
  shows "returns (api_run env (replicate n (Op_socket fd)) socket_init) (\<lambda>s.
    TcpIp_No_Socket_Conn s = int n \<and> TcpIp_Socket_Main_Loop f int s = Inl OutOfBounds)"
proof -
  have "returns (api_run env (replicate n (Op_socket fd)) socket_init) (\<lambda>s.
      TcpIp_No_Socket_Conn s = int n \<and> length (TcpIp_Socket_Conn s) = 512)"
    using open_again [of fd socket_init n env] assms
    by (auto simp: socket_init_def MAX_TCPIP_SOCKET_HANDLES_def elim: returns_mono)
  then show ?thesis
    by (rule returns_mono)
       (use assms(3) in \<open>auto simp: TcpIp_Socket_Main_Loop_def intro!: main_loop_runs_out\<close>)
qed

theorem reopened_socket_breaks_poll_loop_witness:
  "returns (api_run demo_env (replicate 513 (Op_socket 3)) socket_init) (\<lambda>s.
     TcpIp_Socket_Main_Loop (\<lambda>i. TCPIP_CLOSED) int s = Inl OutOfBounds)"
  using reopened_socket_breaks_poll_loop [of 3 513 demo_env "\<lambda>i. TCPIP_CLOSED"]
  by (auto elim: returns_mono)

subsection \<open>From the wire to the application\<close>

text \<open>C21: a data segment from the wire to the caller of \<open>recv\<close>: in every reachable state with an
  empty queue, one run of the periodic function queues the packet lwIP delivers and asks lwIP
  to release it. The next receive on an accepted socket then reads released memory if lwIP has
  released the packet; if lwIP has kept it, the caller gets its bytes and its length, or has its
  buffer overrun if that is shorter.\<close>
theorem frame_reaches_application:
  assumes "reach (sys_step env) socket_init s" and "receives env tpcb q"
    and "rx_content (rx (core s)) = None" and "0 \<le> fd" and "fd < 512"
    and "TCPIP_ACCEPT \<le> TcpState (TcpIp_Socket_Conn s ! nat fd)"
  shows "\<exists>s' a. api_call env Op_MainFunction s = Inr s' \<and> rx_content (rx (core s')) = Some (Some a) \<and>
    (\<exists>es p. a = q (tr (core s) @ es @ [Netif_input p 0])) \<and>
    Pbuf_free (Some a) \<in> set (tr (core s')) \<and>
    (pbuf_at env (tr (core s')) a = None \<longrightarrow> recv_call env fd (Some dst) n s' = Inl DanglingRead) \<and>
    (\<forall>b. pbuf_at env (tr (core s')) a = Some b \<and> unat (pb_len b) \<le> length (pb_payload b) \<longrightarrow>
       (if unat (pb_len b) \<le> length dst
        then returns (recv_call env fd (Some dst) n s') (\<lambda>(r, d, s''). r = int (unat (pb_len b)) \<and>
          d = Some (take (unat (pb_len b)) (pb_payload b) @ drop (unat (pb_len b)) dst) \<and>
          rx_content (rx (core s'')) = None)
        else recv_call env fd (Some dst) n s' = Inl OutOfBounds))"
proof -
  from sys.reach_inv [OF assms(1)] have inv: "sock_inv s" .
  then have k: "core_inv (core s)" by (rule sock_inv_core)
  from main_receives [OF assms(2) k] obtain k' a where main: "TcpIp_MainFunction env (core s) = Inr k'"
    "rx k' = push_value (Some a) (rx (core s))" "\<exists>es p. a = q (tr (core s) @ es @ [Netif_input p 0])"
    "Pbuf_free (Some a) \<in> set (tr k')" .
  let ?s' = "s\<lparr>core := k'\<rparr>"
  have k': "core_inv (core ?s')" using api_core_keeps(2) [OF k, of env] main(1) by simp
  have rx: "rx_content (rx (core ?s')) = Some (Some a)"
    using core_inv_rx(1) [OF k] assms(3) by (simp add: main(2) push_value_content)
  have fd: "valid_fd fd ?s'" "TCPIP_ACCEPT \<le> fd_state fd ?s'"
    using inv assms(4-6) by (simp_all add: valid_fd_def sock_inv_def)
  have "api_call env Op_MainFunction s = Inr ?s'"
    using main(1) by (simp add: api_call_def on_core_def)
  with main(3,4) rx recv_call_waiting(1) [OF fd k' rx, of env dst n]
    recv_call_waiting(2) [OF fd k' rx, of env _ dst n] show ?thesis
    by (intro exI [of _ ?s'] exI [of _ a]) (auto simp: returns_iff)
qed

theorem frame_reaches_application_witness:
  "\<exists>s'. returns (recv_call data_env 0 (Some [0, 0, 0, 0]) 4 s') (\<lambda>(r, d, s'').
     r = 3 \<and> d = Some [1, 2, 3, 0])"
proof -
  have a: "pbuf_at data_env t 7 = Some demo_pbuf" for t
    by (simp add: data_env_def keep_env_def)
  from frame_reaches_application [OF accepted_state_reach data_env_receives, of 0 "[0, 0, 0, 0]" 4]
  obtain s' where "returns (recv_call data_env 0 (Some [0, 0, 0, 0]) 4 s') (\<lambda>(r, d, s'').
      r = 3 \<and> d = Some [1, 2, 3, 0] \<and> rx_content (rx (core s'')) = None)"
    by (auto simp: a)
  then show ?thesis by (auto elim: returns_mono)
qed

text \<open>C23: while a packet waits for the application, every further segment is lost. With every frame a
  data segment and all other calls but writes successful, \<open>n\<close> more runs of the periodic function
  acknowledge \<open>n\<close> segments to the peer, and the packet that was waiting still is. The next
  receive on an accepted socket then reads that packet, and none of the further ones: if its
  memory has been released, it reads released memory; if the packet is longer than the buffer, or
  says it is longer than its own memory, it accesses one of them out of bounds; and otherwise it gives the packet's length and bytes, and the receive after
  it gives 0 and leaves the buffer as it is.\<close>
theorem further_frames_acknowledged_and_lost:
  assumes "reach (sys_step env) socket_init s" and "receives env tpcb q"
    and "rx_content (rx (core s)) = Some (Some a)" and "0 \<le> fd" and "fd < 512"
    and "TCPIP_ACCEPT \<le> TcpState (TcpIp_Socket_Conn s ! nat fd)"
  shows "returns (api_run env (replicate n Op_MainFunction) s) (\<lambda>s1.
    acked (tr (core s1)) = acked (tr (core s)) + n \<and> rx_content (rx (core s1)) = Some (Some a) \<and>
    (case pbuf_at env (tr (core s1)) a of
       None \<Rightarrow> recv_call env fd (Some dst) len s1 = Inl DanglingRead
     | Some b \<Rightarrow>
         if unat (pb_len b) \<le> length (pb_payload b) \<and> unat (pb_len b) \<le> length dst
         then returns (recv_call env fd (Some dst) len s1) (\<lambda>(r, d, s2). r = int (unat (pb_len b)) \<and>
           d = Some (take (unat (pb_len b)) (pb_payload b) @ drop (unat (pb_len b)) dst) \<and>
           returns (recv_call env fd (Some dst') len' s2) (\<lambda>(r, d, s3). r = 0 \<and> d = Some dst'))
         else recv_call env fd (Some dst) len s1 = Inl OutOfBounds))"
proof -
  from sys.reach_inv [OF assms(1)] have inv: "sock_inv s" .
  from main_again [OF assms(2) sock_inv_core [OF inv] assms(3), of n] show ?thesis
  proof (rule returns_mono, elim conjE, intro conjI)
    fix s1 :: socket_state
    assume s1: "core_inv (core s1)" "rx_content (rx (core s1)) = Some (Some a)"
      "TcpIp_Socket_Conn s1 = TcpIp_Socket_Conn s"
    have fd: "valid_fd fd s1" "TCPIP_ACCEPT \<le> fd_state fd s1"
      using inv assms(4-6) s1(3) by (simp_all add: valid_fd_def sock_inv_def)
    obtain q where q: "rx_content q = None" "core_inv ((core s1)\<lparr>rx := q\<rparr>)"
      "recv_call env fd (Some dst) len s1 = rbind (read_packet env (tr (core s1)) a dst) (\<lambda>(r, d).
         Inr (r, Some d, s1\<lparr>core := (core s1)\<lparr>rx := q\<rparr>\<rparr>))"
      using recv_call_reads [OF fd s1(1,2)] by blast
    let ?s2 = "s1\<lparr>core := (core s1)\<lparr>rx := q\<rparr>\<rparr>"
    have "returns (recv_call env fd (Some dst') len' ?s2) (\<lambda>(r, d, s3). r = 0 \<and> d = Some dst')"
      using fd q(1,2) by (intro recv_call_empty) (simp_all add: valid_fd_def)
    with q(3) show "case pbuf_at env (tr (core s1)) a of
       None \<Rightarrow> recv_call env fd (Some dst) len s1 = Inl DanglingRead
     | Some b \<Rightarrow>
         if unat (pb_len b) \<le> length (pb_payload b) \<and> unat (pb_len b) \<le> length dst
         then returns (recv_call env fd (Some dst) len s1) (\<lambda>(r, d, s2). r = int (unat (pb_len b)) \<and>
           d = Some (take (unat (pb_len b)) (pb_payload b) @ drop (unat (pb_len b)) dst) \<and>
           returns (recv_call env fd (Some dst') len' s2) (\<lambda>(r, d, s3). r = 0 \<and> d = Some dst'))
         else recv_call env fd (Some dst) len s1 = Inl OutOfBounds"
      by (auto simp: read_packet_def Let_def split: option.split)
  qed assumption+
qed

theorem further_frames_acknowledged_and_lost_witness:
  "\<exists>s. returns (api_run data_env (replicate 5 Op_MainFunction) s) (\<lambda>s1.
     acked (tr (core s1)) = acked (tr (core s)) + 5 \<and>
     returns (recv_call data_env 0 (Some [0, 0, 0]) 3 s1) (\<lambda>(r, d, s2). d = Some [1, 2, 3] \<and>
       returns (recv_call data_env 0 (Some [9]) 1 s2) (\<lambda>(r, d, s3). r = 0 \<and> d = Some [9])))"
proof -
  obtain s where s: "reach (sys_step data_env) socket_init s" "rx_content (rx (core s)) = Some (Some 7)"
    "TcpState (TcpIp_Socket_Conn s ! 0) = TCPIP_ACCEPT"
    using waiting_state_reach by blast
  have a: "pbuf_at data_env t 7 = Some demo_pbuf" for t
    by (simp add: data_env_def keep_env_def)
  from further_frames_acknowledged_and_lost [OF s(1) data_env_receives s(2), of 0 5 "[0, 0, 0]" 3 "[9]" 1]
    s(3) show ?thesis
    by (intro exI [of _ s]) (auto simp: a demo_pbuf_def elim!: returns_mono)
qed

end
